theory Spec2Isabelle
  imports Main "HOL-Library.Char_ord" "HOL-Library.List_Lexorder" "HOL-Library.Multiset"
begin

section \<open>JavaScript values and errors\<close>

text \<open>
  The proof chain engine of agentproof (\<^verbatim>\<open>keys.js\<close>, \<^verbatim>\<open>proof.js\<close>, \<^verbatim>\<open>chain.js\<close>,
  \<^verbatim>\<open>verify.js\<close> and the \<^verbatim>\<open>init\<close> command of the CLI) works on plain JSON data. A value
  is a \<open>json\<close>; the members of an object are listed in the order in which JavaScript
  enumerates its own properties, and their keys are pairwise distinct. The value
  \<^verbatim>\<open>undefined\<close> is not a JSON value: a property read that finds nothing returns \<open>None\<close>.
  A member whose value is \<^verbatim>\<open>undefined\<close> is left out of the list of members: every
  property read of the engine finds \<^verbatim>\<open>undefined\<close> either way, and \<^verbatim>\<open>JSON.stringify\<close>
  leaves such a member out. Numbers are restricted to the integers that \<^verbatim>\<open>JSON.stringify\<close>
  prints in plain decimal digits (the integers of magnitude at most \<^verbatim>\<open>2 ** 53\<close>, which a
  double holds exactly); a string is a list of code units below 256.
\<close>

datatype json =
    JNull
  | JBool bool
  | JNum int
  | JStr string
  | JArr "json list"
  | JObj "(string \<times> json) list"

text \<open>
  What the code can throw: a \<^verbatim>\<open>TypeError\<close> of the runtime (a property read on
  \<^verbatim>\<open>null\<close> or \<^verbatim>\<open>undefined\<close>, an argument of the wrong type given to \<^verbatim>\<open>Buffer.from\<close>
  or \<^verbatim>\<open>hash.update\<close>), an error of the crypto library (a key that does not decode), an
  error of the file system, and the \<^verbatim>\<open>Error\<close> objects the repository creates itself
  with \<^verbatim>\<open>throw new Error(...)\<close>.
\<close>

datatype error =
    TypeError
  | CryptoError
  | SystemError string
  | Error string

text \<open>
  \<open>field v name\<close> is the property read \<^verbatim>\<open>v.name\<close> on a value that is neither
  \<^verbatim>\<open>null\<close> nor \<^verbatim>\<open>undefined\<close>, for the property names the engine reads
  (\<^verbatim>\<open>version\<close>, \<^verbatim>\<open>action\<close>, \<^verbatim>\<open>data\<close>, \<^verbatim>\<open>agentId\<close>, \<^verbatim>\<open>previousHash\<close>, \<^verbatim>\<open>timestamp\<close>,
  \<^verbatim>\<open>metadata\<close>, \<^verbatim>\<open>hash\<close>, \<^verbatim>\<open>signature\<close>, \<^verbatim>\<open>publicKey\<close>, \<^verbatim>\<open>proofs\<close>): none of them is a
  built-in property of a string, number, boolean, array or of \<^verbatim>\<open>Object.prototype\<close>, so
  only an own member of an object can answer. \<open>get\<close> is the same read on any value:
  on \<^verbatim>\<open>null\<close> it throws.
\<close>

fun field :: "json \<Rightarrow> string \<Rightarrow> json option" where
  "field (JObj ms) name = map_of ms name"
| "field v name = None"

fun get :: "json \<Rightarrow> string \<Rightarrow> error + json option" where
  "get JNull name = Inl TypeError"
| "get v name = Inr (field v name)"

text \<open>JavaScript truthiness, and \<^verbatim>\<open>===\<close>: two objects or arrays that were built or parsed
  separately are never identical, primitives are compared by value.\<close>

fun truthy :: "json option \<Rightarrow> bool" where
  "truthy None = False"
| "truthy (Some JNull) = False"
| "truthy (Some (JBool b)) = b"
| "truthy (Some (JNum n)) = (n \<noteq> 0)"
| "truthy (Some (JStr s)) = (s \<noteq> [])"
| "truthy (Some v) = True"

fun primitive :: "json \<Rightarrow> bool" where
  "primitive (JArr xs) = False"
| "primitive (JObj ms) = False"
| "primitive v = True"

fun strict_eq :: "json option \<Rightarrow> json option \<Rightarrow> bool" where
  "strict_eq None None = True"
| "strict_eq (Some a) (Some b) = (primitive a \<and> a = b)"
| "strict_eq a b = False"

section \<open>Printing: template strings and \<^verbatim>\<open>JSON.stringify\<close>\<close>

definition show_digit :: "nat \<Rightarrow> char" where
  "show_digit n = ''0123456789abcdef'' ! n"

function show_dec :: "int \<Rightarrow> string" where
  "show_dec n =
    (if n < 10 then [show_digit (nat n)]
     else show_dec (n div 10) @ [show_digit (nat (n mod 10))])"
  by pat_completeness auto
termination
  by (relation "measure nat") auto

declare show_dec.simps [simp del]

definition show_nat :: "nat \<Rightarrow> string" where
  "show_nat n = show_dec (int n)"

definition show_int :: "int \<Rightarrow> string" where
  "show_int i = (if i < 0 then CHR ''-'' # show_dec (- i) else show_dec i)"

fun join :: "string \<Rightarrow> string list \<Rightarrow> string" where
  "join sep [] = []"
| "join sep [x] = x"
| "join sep (x # y # ys) = x @ sep @ join sep (y # ys)"

text \<open>\<^verbatim>\<open>QuoteJSONString\<close>: the two-character escapes, \<^verbatim>\<open>\u00xx\<close> for the other control
  characters, every other code unit as it is.\<close>

definition escape_char :: "char \<Rightarrow> string" where
  "escape_char c =
    (if c = CHR 0x08 then [CHR 0x5C, CHR ''b'']
     else if c = CHR 0x09 then [CHR 0x5C, CHR ''t'']
     else if c = CHR 0x0A then [CHR 0x5C, CHR ''n'']
     else if c = CHR 0x0C then [CHR 0x5C, CHR ''f'']
     else if c = CHR 0x0D then [CHR 0x5C, CHR ''r'']
     else if c = CHR 0x22 then [CHR 0x5C, CHR 0x22]
     else if c = CHR 0x5C then [CHR 0x5C, CHR 0x5C]
     else if (of_char c :: nat) < 32
       then [CHR 0x5C, CHR ''u'', CHR ''0'', CHR ''0'',
             show_digit (of_char c div 16), show_digit (of_char c mod 16)]
     else [c])"

definition quote :: "string \<Rightarrow> string" where
  "quote s = CHR 0x22 # concat (map escape_char s) @ [CHR 0x22]"

fun stringify :: "json \<Rightarrow> string" where
  "stringify JNull = ''null''"
| "stringify (JBool b) = (if b then ''true'' else ''false'')"
| "stringify (JNum n) = show_int n"
| "stringify (JStr s) = quote s"
| "stringify (JArr xs) = ''['' @ join '','' (map stringify xs) @ '']''"
| "stringify (JObj ms) =
     ''{'' @ join '','' (map (\<lambda>(k, v). quote k @ '':'' @ stringify v) ms) @ ''}''"

section \<open>Property order of an object\<close>

text \<open>
  \<^verbatim>\<open>sorted[key] = value\<close> on an ordinary object (\<^verbatim>\<open>[[Set]]\<close> and
  \<^verbatim>\<open>OrdinaryOwnPropertyKeys\<close> of ECMAScript):
  \<^item> an existing own property keeps its place and takes the new value;
  \<^item> the new key \<^verbatim>\<open>__proto__\<close> is answered by the setter that every object literal
    inherits from \<^verbatim>\<open>Object.prototype\<close>: it changes the prototype (or does nothing) and
    creates no own property, so neither \<^verbatim>\<open>Object.keys\<close> nor \<^verbatim>\<open>JSON.stringify\<close> sees it
    (\<^verbatim>\<open>JSON.parse\<close>, which defines its members directly, does create an own property of
    that name);
  \<^item> a new key that is an array index (the decimal numeral, without leading zeros, of a
    number below \<open>2\<^sup>3\<^sup>2 - 1\<close>) is enumerated among the array indices in ascending
    numeric order, before every other key;
  \<^item> any other new key is enumerated last.
\<close>

definition is_digit :: "char \<Rightarrow> bool" where
  "is_digit c = (CHR ''0'' \<le> c \<and> c \<le> CHR ''9'')"

definition dec_value :: "string \<Rightarrow> int" where
  "dec_value s = foldl (\<lambda>n c. 10 * n + (of_char c - 48)) 0 s"

definition array_index :: "string \<Rightarrow> int option" where
  "array_index k =
    (if k \<noteq> [] \<and> list_all is_digit k \<and> (k = ''0'' \<or> hd k \<noteq> CHR ''0'')
        \<and> dec_value k < 4294967295
     then Some (dec_value k) else None)"

fun insert_index :: "int \<Rightarrow> string \<Rightarrow> json \<Rightarrow> (string \<times> json) list \<Rightarrow> (string \<times> json) list" where
  "insert_index n k v [] = [(k, v)]"
| "insert_index n k v ((k', v') # ms) =
     (case array_index k' of
        Some n' \<Rightarrow> if n' < n then (k', v') # insert_index n k v ms else (k, v) # (k', v') # ms
      | None \<Rightarrow> (k, v) # (k', v') # ms)"

definition obj_assign :: "(string \<times> json) list \<Rightarrow> string \<Rightarrow> json \<Rightarrow> (string \<times> json) list" where
  "obj_assign ms k v =
    (if k \<in> fst ` set ms then map (\<lambda>(k', v'). if k' = k then (k', v) else (k', v')) ms
     else if k = ''__proto__'' then ms
     else case array_index k of
            Some n \<Rightarrow> insert_index n k v ms
          | None \<Rightarrow> ms @ [(k, v)])"

section \<open>\<^verbatim>\<open>proof.js\<close>: canonical form, hash and signature\<close>

text \<open>
  \<^verbatim>\<open>sortKeys\<close> (lines 43 to 55). \<^verbatim>\<open>Object.keys(obj).sort()\<close> orders the keys by their
  code units; the loop assigns \<^verbatim>\<open>sorted[key] = sortKeys(obj[key])\<close> in that order. The
  keys of an object are distinct, so walking the sorted keys and reading each value is
  walking the members sorted by key.
\<close>

fun sortKeys :: "json \<Rightarrow> json" where
  "sortKeys (JArr xs) = JArr (map sortKeys xs)"
| "sortKeys (JObj ms) =
     JObj (foldl (\<lambda>sorted (k, v). obj_assign sorted k v) []
             (sort_key fst (map (\<lambda>(k, v). (k, sortKeys v)) ms)))"
| "sortKeys v = v"

text \<open>
  The runtime and the crypto library are parameters of the development:
  \<^item> \<open>sha256_hex s\<close> is \<^verbatim>\<open>crypto.createHash('sha256').update(s).digest('hex')\<close>;
  \<^item> \<open>ed25519_sign k m\<close> is \<^verbatim>\<open>crypto.sign(null, Buffer.from(m), privateKeyFromBase64(k))\<close>
    in base64, or the error thrown when the key does not decode;
  \<^item> \<open>ed25519_verify pk m s\<close> is
    \<^verbatim>\<open>crypto.verify(null, Buffer.from(m), publicKeyFromBase64(pk), Buffer.from(s, 'base64'))\<close>,
    \<open>None\<close> when one of the four calls throws;
  \<^item> \<open>date_getTime v\<close> is \<^verbatim>\<open>new Date(v).getTime()\<close> for a value that the constructor
    accepts, \<open>None\<close> for \<^verbatim>\<open>NaN\<close>;
  \<^item> \<open>toISOString t\<close> is \<^verbatim>\<open>new Date(t).toISOString()\<close>.
\<close>

record env =
  sha256_hex :: "string \<Rightarrow> string"
  ed25519_sign :: "string \<Rightarrow> string \<Rightarrow> error + string"
  ed25519_verify :: "json \<Rightarrow> string \<Rightarrow> json \<Rightarrow> bool option"
  date_getTime :: "json \<Rightarrow> int option"
  toISOString :: "int \<Rightarrow> string"

text \<open>
  An object literal such as \<^verbatim>\<open>{version: proof.version, ..., metadata: proof.metadata}\<close>
  may hold \<^verbatim>\<open>undefined\<close> as a value. \<^verbatim>\<open>sortKeys\<close> returns \<^verbatim>\<open>undefined\<close> unchanged and
  \<^verbatim>\<open>JSON.stringify\<close> leaves such a member out, so the canonical text is that of the
  members that are defined.
\<close>

type_synonym proof_data = "(string \<times> json option) list"

definition defined_members :: "proof_data \<Rightarrow> (string \<times> json) list" where
  "defined_members pd = concat (map (\<lambda>(k, v). case v of None \<Rightarrow> [] | Some x \<Rightarrow> [(k, x)]) pd)"

definition canonical :: "proof_data \<Rightarrow> string" where
  "canonical pd = stringify (sortKeys (JObj (defined_members pd)))"

definition hashProofData :: "env \<Rightarrow> proof_data \<Rightarrow> string" where
  "hashProofData env proofData = sha256_hex env (canonical proofData)"


section \<open>\<^verbatim>\<open>keys.js\<close>\<close>

text \<open>A keypair holds two base64 strings; a chain imported for verification has
  \<^verbatim>\<open>privateKey: null\<close>.\<close>

record keypair =
  publicKey :: string
  privateKey :: "string option"

definition agent_id :: "env \<Rightarrow> string \<Rightarrow> string" where
  "agent_id env pk = ''agent-'' @ take 16 (sha256_hex env pk)"

text \<open>\<^verbatim>\<open>deriveAgentId\<close> (lines 85 to 88). \<^verbatim>\<open>hash.update\<close> accepts a string (or a
  buffer, which JSON data never is) and throws a \<^verbatim>\<open>TypeError\<close> on anything else.\<close>

definition deriveAgentId :: "env \<Rightarrow> json option \<Rightarrow> error + string" where
  "deriveAgentId env pk =
    (case pk of
       Some (JStr s) \<Rightarrow> Inr (agent_id env s)
     | _ \<Rightarrow> Inl TypeError)"

text \<open>
  The file system: a path is the list of its components, so \<^verbatim>\<open>path.dirname\<close> is
  \<open>butlast\<close>. A file holds its mode and its text; \<open>Json_text v\<close> is a text that
  \<^verbatim>\<open>JSON.parse\<close> reads as \<open>v\<close>, which is what \<^verbatim>\<open>JSON.stringify(v, null, 2)\<close> writes.
  Access rights are not modelled: every existing file can be rewritten by its owner.
\<close>

type_synonym path = "string list"

datatype content = Json_text json | Other_text string

datatype node = Dir | File nat content

type_synonym fs = "path \<Rightarrow> node option"

definition existsSync :: "fs \<Rightarrow> path \<Rightarrow> bool" where
  "existsSync fs p = (fs p \<noteq> None)"

definition ancestors :: "path \<Rightarrow> path list" where
  "ancestors p = map (\<lambda>n. take n p) [0..<Suc (length p)]"

definition is_file :: "fs \<Rightarrow> path \<Rightarrow> bool" where
  "is_file fs p = (case fs p of Some (File m c) \<Rightarrow> True | _ \<Rightarrow> False)"

definition mkdirSync_recursive :: "fs \<Rightarrow> path \<Rightarrow> error + fs" where
  "mkdirSync_recursive fs dir =
    (if list_ex (is_file fs) (ancestors dir) then Inl (SystemError ''ENOTDIR'')
     else Inr (\<lambda>p. if p \<in> set (ancestors dir) then Some Dir else fs p))"

definition writeFileSync :: "fs \<Rightarrow> path \<Rightarrow> content \<Rightarrow> nat \<Rightarrow> error + fs" where
  "writeFileSync fs p c mode =
    (case fs p of
       Some Dir \<Rightarrow> Inl (SystemError ''EISDIR'')
     | Some (File m old) \<Rightarrow> Inr (fs(p \<mapsto> File m c))
     | None \<Rightarrow>
        (case fs (butlast p) of
           Some Dir \<Rightarrow> Inr (fs(p \<mapsto> File mode c))
         | Some (File m old) \<Rightarrow> Inl (SystemError ''ENOTDIR'')
         | None \<Rightarrow> Inl (SystemError ''ENOENT'')))"

definition keypair_json :: "keypair \<Rightarrow> json" where
  "keypair_json kp =
    JObj [(''publicKey'', JStr (publicKey kp)),
          (''privateKey'', (case privateKey kp of None \<Rightarrow> JNull | Some k \<Rightarrow> JStr k))]"

text \<open>\<^verbatim>\<open>saveKeypair\<close> (lines 46 to 52) returns the file system it leaves behind and the
  error it threw, if any. Mode \<^verbatim>\<open>0o600\<close> is 384.\<close>

definition saveKeypair :: "keypair \<Rightarrow> path \<Rightarrow> fs \<Rightarrow> fs \<times> error option" where
  "saveKeypair kp filepath fs =
    (let dir = butlast filepath in
     case (if \<not> existsSync fs dir then mkdirSync_recursive fs dir else Inr fs) of
       Inl e \<Rightarrow> (fs, Some e)
     | Inr fs1 \<Rightarrow>
        (case writeFileSync fs1 filepath (Json_text (keypair_json kp)) 384 of
           Inl e \<Rightarrow> (fs1, Some e)
         | Inr fs2 \<Rightarrow> (fs2, None)))"

section \<open>\<^verbatim>\<open>proof.js\<close>: building a proof\<close>

definition PROOF_VERSION :: string where
  "PROOF_VERSION = ''1.0''"

text \<open>
  \<^verbatim>\<open>createProofData\<close> (lines 26 to 36), called with an object. Each of the five
  destructured parameters is \<open>None\<close> when the object has no such member (or has it as
  \<^verbatim>\<open>undefined\<close>): \<open>action\<close>, \<open>data\<close> and \<open>agentId\<close> are then stored as they are,
  nothing checks them; \<open>previousHash\<close> and \<open>metadata\<close> take their defaults. \<open>t\<close> is
  the clock reading of \<^verbatim>\<open>new Date()\<close>.
\<close>

definition createProofData ::
  "env \<Rightarrow> int \<Rightarrow> json option \<Rightarrow> json option \<Rightarrow> json option \<Rightarrow> json option \<Rightarrow> json option
     \<Rightarrow> proof_data" where
  "createProofData env t action data agentId previousHash metadata =
    [(''version'', Some (JStr PROOF_VERSION)),
     (''action'', action),
     (''data'', data),
     (''agentId'', agentId),
     (''previousHash'', Some (case previousHash of None \<Rightarrow> JNull | Some h \<Rightarrow> h)),
     (''timestamp'', Some (JStr (toISOString env t))),
     (''metadata'', Some (case metadata of None \<Rightarrow> JObj [] | Some m \<Rightarrow> m))]"

text \<open>\<^verbatim>\<open>signProofData\<close> (lines 75 to 81): \<^verbatim>\<open>privateKeyFromBase64\<close> starts with
  \<^verbatim>\<open>Buffer.from(base64Key, 'base64')\<close>, which throws a \<^verbatim>\<open>TypeError\<close> on \<^verbatim>\<open>null\<close>.\<close>

definition signProofData :: "env \<Rightarrow> proof_data \<Rightarrow> string option \<Rightarrow> error + string" where
  "signProofData env proofData priv =
    (case priv of
       None \<Rightarrow> Inl TypeError
     | Some k \<Rightarrow> ed25519_sign env k (canonical proofData))"

text \<open>\<^verbatim>\<open>createProof\<close> (lines 89 to 99): the proof is the proof data followed by
  \<^verbatim>\<open>hash\<close> and \<^verbatim>\<open>signature\<close>; a field of the proof data that is \<^verbatim>\<open>undefined\<close> is a
  field the proof does not have.\<close>

definition createProof ::
  "env \<Rightarrow> int \<Rightarrow> json option \<Rightarrow> json option \<Rightarrow> json option \<Rightarrow> json option \<Rightarrow> json option
     \<Rightarrow> string option \<Rightarrow> error + json" where
  "createProof env t action data agentId previousHash metadata priv =
    (let proofData = createProofData env t action data agentId previousHash metadata;
         hash = hashProofData env proofData
     in case signProofData env proofData priv of
          Inl e \<Rightarrow> Inl e
        | Inr signature \<Rightarrow>
            Inr (JObj (defined_members proofData
                        @ [(''hash'', JStr hash), (''signature'', JStr signature)])))"

section \<open>\<^verbatim>\<open>verify.js\<close>\<close>

record vresult =
  valid :: bool
  errors :: "string list"
  warnings :: "string list"

text \<open>The object literal both \<^verbatim>\<open>verifySignature\<close> and \<^verbatim>\<open>verifyHash\<close> rebuild from a
  proof: everything except \<^verbatim>\<open>hash\<close> and \<^verbatim>\<open>signature\<close>.\<close>

definition proof_fields :: "json \<Rightarrow> proof_data" where
  "proof_fields proof =
    [(''version'', field proof ''version''),
     (''action'', field proof ''action''),
     (''data'', field proof ''data''),
     (''agentId'', field proof ''agentId''),
     (''previousHash'', field proof ''previousHash''),
     (''timestamp'', field proof ''timestamp''),
     (''metadata'', field proof ''metadata'')]"

text \<open>\<^verbatim>\<open>verifySignature\<close> (lines 707 to 729): whatever is thrown inside, a read on a
  \<^verbatim>\<open>null\<close> proof or \<^verbatim>\<open>Buffer.from(undefined)\<close> included, is caught and answered by
  \<^verbatim>\<open>false\<close>.\<close>

definition verifySignature :: "env \<Rightarrow> json \<Rightarrow> json option \<Rightarrow> bool" where
  "verifySignature env proof pk =
    (case proof of
       JNull \<Rightarrow> False
     | _ \<Rightarrow>
        (case (pk, field proof ''signature'') of
           (Some k, Some s) \<Rightarrow>
             (case ed25519_verify env k (canonical (proof_fields proof)) s of
                Some b \<Rightarrow> b
              | None \<Rightarrow> False)
         | _ \<Rightarrow> False))"

text \<open>\<^verbatim>\<open>verifyHash\<close> (lines 736 to 749) and \<^verbatim>\<open>verifyAgentId\<close> (lines 757 to 759) have no
  handler: on a \<^verbatim>\<open>null\<close> proof the first property read throws.\<close>

definition verifyHash :: "env \<Rightarrow> json \<Rightarrow> error + bool" where
  "verifyHash env proof =
    (case proof of
       JNull \<Rightarrow> Inl TypeError
     | _ \<Rightarrow> Inr (strict_eq (Some (JStr (hashProofData env (proof_fields proof))))
                           (field proof ''hash'')))"

definition verifyAgentId :: "env \<Rightarrow> json \<Rightarrow> json option \<Rightarrow> error + bool" where
  "verifyAgentId env proof pk =
    (case get proof ''agentId'' of
       Inl e \<Rightarrow> Inl e
     | Inr a \<Rightarrow>
        (case deriveAgentId env pk of
           Inl e \<Rightarrow> Inl e
         | Inr derived \<Rightarrow> Inr (strict_eq a (Some (JStr derived)))))"

text \<open>Numbers that may be \<^verbatim>\<open>NaN\<close> (\<open>None\<close>): every comparison with \<^verbatim>\<open>NaN\<close> is false.\<close>

fun js_less :: "int option \<Rightarrow> int option \<Rightarrow> bool" where
  "js_less (Some a) (Some b) = (a < b)"
| "js_less a b = False"

text \<open>
  \<^verbatim>\<open>new Date(v).getTime()\<close>. The constructor first converts an object or array to a
  primitive value, and that conversion throws a \<^verbatim>\<open>TypeError\<close> when it finds none. An
  object read by \<^verbatim>\<open>JSON.parse\<close> inherits \<^verbatim>\<open>valueOf\<close>, which returns the object itself,
  and \<^verbatim>\<open>toString\<close>, which returns a string: it has no primitive value exactly when a
  member of its own named \<^verbatim>\<open>toString\<close> hides the inherited function (no JSON value can
  be called). An array is converted by \<^verbatim>\<open>join\<close>, which converts each element other than
  \<^verbatim>\<open>null\<close> to a string in the same way. What the constructor makes of a value that has
  a primitive value is \<open>date_getTime\<close> of the runtime; \<^verbatim>\<open>undefined\<close> gives \<^verbatim>\<open>NaN\<close>.
\<close>

fun no_primitive :: "json \<Rightarrow> bool" where
  "no_primitive (JObj ms) = (''toString'' \<in> set (map fst ms))"
| "no_primitive (JArr xs) = list_ex no_primitive xs"
| "no_primitive v = False"

definition time_of :: "env \<Rightarrow> json option \<Rightarrow> error + int option" where
  "time_of env v =
    (case v of
       None \<Rightarrow> Inr None
     | Some x \<Rightarrow> if no_primitive x then Inl TypeError else Inr (date_getTime env x))"

definition required_fields :: "string list" where
  "required_fields =
    [''version'', ''action'', ''data'', ''agentId'', ''timestamp'', ''hash'', ''signature'']"

text \<open>\<^verbatim>\<open>verifyProof\<close> (lines 767 to 810); \<open>now\<close> is the reading of \<^verbatim>\<open>Date.now()\<close>. The
  conversion of the timestamp (line 799) is outside any handler.\<close>

definition verifyProof :: "env \<Rightarrow> int \<Rightarrow> json \<Rightarrow> json option \<Rightarrow> error + vresult" where
  "verifyProof env now proof pk =
    (case proof of
       JNull \<Rightarrow> Inl TypeError
     | _ \<Rightarrow>
        (let missing = map (\<lambda>f. ''Missing required field: '' @ f)
                         (filter (\<lambda>f. field proof f = None) required_fields)
         in if missing \<noteq> [] then Inr \<lparr>valid = False, errors = missing, warnings = []\<rparr>
            else
              (case verifyAgentId env proof pk of
                 Inl e \<Rightarrow> Inl e
               | Inr idOk \<Rightarrow>
                  (case verifyHash env proof of
                     Inl e \<Rightarrow> Inl e
                   | Inr hashOk \<Rightarrow>
                      (let es = (if \<not> idOk then [''Agent ID does not match public key''] else [])
                              @ (if \<not> hashOk
                                 then [''Hash verification failed - proof data may be tampered'']
                                 else [])
                              @ (if \<not> verifySignature env proof pk
                                 then [''Signature verification failed - proof is not authentic'']
                                 else [])
                       in case time_of env (field proof ''timestamp'') of
                            Inl e \<Rightarrow> Inl e
                          | Inr proofTime \<Rightarrow>
                             (let ws = (if js_less (Some (now + 60000)) proofTime
                                        then [''Proof timestamp is in the future''] else [])
                              in Inr \<lparr>valid = (es = []), errors = es, warnings = ws\<rparr>))))))"


text \<open>
  \<^verbatim>\<open>verifyChain\<close> (lines 818 to 871). The first loop (lines 827 to 837) checks every
  proof; \<open>now i\<close> is the reading of \<^verbatim>\<open>Date.now()\<close> during the check of proof \<open>i\<close>.
  It returns the entries pushed on \<^verbatim>\<open>errors\<close> and on \<^verbatim>\<open>warnings\<close>.
\<close>

fun verify_each ::
  "env \<Rightarrow> (nat \<Rightarrow> int) \<Rightarrow> json option \<Rightarrow> nat \<Rightarrow> json list \<Rightarrow> error + string list \<times> string list" where
  "verify_each env now pk i [] = Inr ([], [])"
| "verify_each env now pk i (proof # rest) =
     (case verifyProof env (now i) proof pk of
        Inl e \<Rightarrow> Inl e
      | Inr result \<Rightarrow>
         (case verify_each env now pk (Suc i) rest of
            Inl e \<Rightarrow> Inl e
          | Inr (es, ws) \<Rightarrow>
             Inr ((if \<not> valid result
                   then [''Proof '' @ show_nat i @ '': '' @ join '', '' (errors result)]
                   else []) @ es,
                  (if warnings result \<noteq> []
                   then [''Proof '' @ show_nat i @ '': '' @ join '', '' (warnings result)]
                   else []) @ ws)))"

text \<open>The second loop (lines 844 to 858), from proof \<open>i\<close> on, with the proof before it:
  the linkage check pushes on \<^verbatim>\<open>errors\<close>, the temporal check on \<^verbatim>\<open>warnings\<close>; the two
  conversions of a timestamp (lines 853 and 854) are outside any handler.\<close>

definition chain_break :: "nat \<Rightarrow> string" where
  \<open>chain_break i =
    ''Chain break at proof '' @ show_nat i
      @ '': previousHash doesn't match previous proof's hash''\<close>

definition earlier_timestamp :: "nat \<Rightarrow> string" where
  "earlier_timestamp i =
    ''Proof '' @ show_nat i @ '' has earlier timestamp than proof '' @ show_nat (i - 1)"

fun check_links ::
  "env \<Rightarrow> nat \<Rightarrow> json \<Rightarrow> json list \<Rightarrow> error + string list \<times> string list" where
  "check_links env i prev [] = Inr ([], [])"
| "check_links env i prev (cur # rest) =
     (case get cur ''previousHash'' of
        Inl e \<Rightarrow> Inl e
      | Inr curPrevious \<Rightarrow>
         (case get prev ''hash'' of
            Inl e \<Rightarrow> Inl e
          | Inr prevHash \<Rightarrow>
             (case time_of env (field prev ''timestamp'') of
                Inl e \<Rightarrow> Inl e
              | Inr prevTime \<Rightarrow>
                 (case time_of env (field cur ''timestamp'') of
                    Inl e \<Rightarrow> Inl e
                  | Inr curTime \<Rightarrow>
                     (case check_links env (Suc i) cur rest of
                        Inl e \<Rightarrow> Inl e
                      | Inr (es, ws) \<Rightarrow>
                         Inr ((if \<not> strict_eq curPrevious prevHash then [chain_break i] else [])
                                @ es,
                              (if js_less curTime (map_option (\<lambda>t. t - 1000) prevTime)
                               then [earlier_timestamp i] else []) @ ws))))))"

text \<open>\<^verbatim>\<open>new Set(proofs.map(p => p.agentId))\<close> (line 861): the elements in the order of
  their insertion; a value is added unless an identical one is there.\<close>

fun agentIds :: "json list \<Rightarrow> error + json option list" where
  "agentIds [] = Inr []"
| "agentIds (p # ps) =
     (case get p ''agentId'' of
        Inl e \<Rightarrow> Inl e
      | Inr a \<Rightarrow> (case agentIds ps of Inl e \<Rightarrow> Inl e | Inr as \<Rightarrow> Inr (a # as)))"

definition set_add :: "json option list \<Rightarrow> json option \<Rightarrow> json option list" where
  "set_add s x = (if list_ex (strict_eq x) s then s else s @ [x])"

definition set_size :: "json option list \<Rightarrow> nat" where
  "set_size xs = length (foldl set_add [] xs)"

definition first_not_null :: string where
  "first_not_null = ''First proof has non-null previousHash (may be partial chain)''"

definition verifyChain ::
  "env \<Rightarrow> (nat \<Rightarrow> int) \<Rightarrow> json list \<Rightarrow> json option \<Rightarrow> error + vresult" where
  "verifyChain env now proofs pk =
    (if proofs = [] then Inr \<lparr>valid = True, errors = [], warnings = [''Empty chain'']\<rparr>
     else
       (case verify_each env now pk 0 proofs of
          Inl e \<Rightarrow> Inl e
        | Inr (es1, ws1) \<Rightarrow>
           (case get (hd proofs) ''previousHash'' of
              Inl e \<Rightarrow> Inl e
            | Inr firstPrevious \<Rightarrow>
               (case check_links env 1 (hd proofs) (tl proofs) of
                  Inl e \<Rightarrow> Inl e
                | Inr (es2, ws3) \<Rightarrow>
                   (case agentIds proofs of
                      Inl e \<Rightarrow> Inl e
                    | Inr as \<Rightarrow>
                       (let es = es1 @ es2
                               @ (if set_size as > 1
                                  then [''Chain contains proofs from multiple agents'']
                                  else []);
                            ws = ws1
                               @ (if \<not> strict_eq firstPrevious (Some JNull)
                                  then [first_not_null] else [])
                               @ ws3
                        in Inr \<lparr>valid = (es = []), errors = es, warnings = ws\<rparr>))))))"

text \<open>
  \<^verbatim>\<open>verifyExportedChain\<close> (lines 878 to 888) hands \<^verbatim>\<open>exportedChain.proofs\<close> to
  \<^verbatim>\<open>verifyChain\<close> whatever it is. \<open>verifyChain_value\<close> is \<^verbatim>\<open>verifyChain\<close> on such a value:
  \<^item> \<^verbatim>\<open>undefined\<close> or \<^verbatim>\<open>null\<close>: \<^verbatim>\<open>proofs.length\<close> throws;
  \<^item> a number or a boolean has no \<^verbatim>\<open>length\<close> and no element, so both loops are skipped
    and \<^verbatim>\<open>proofs[0].previousHash\<close> throws;
  \<^item> the empty string has length 0 and is answered as the empty chain; the elements of
    any other string are one-character strings, which pass both loops as proofs without
    fields, and \<^verbatim>\<open>proofs.map\<close> is not a function;
  \<^item> an object whose \<^verbatim>\<open>length\<close> is the number 0 is answered as the empty chain; any
    other object throws a \<^verbatim>\<open>TypeError\<close> at the latest when \<^verbatim>\<open>proofs.map\<close> is called.
\<close>

definition verifyChain_value ::
  "env \<Rightarrow> (nat \<Rightarrow> int) \<Rightarrow> json option \<Rightarrow> json option \<Rightarrow> error + vresult" where
  "verifyChain_value env now proofs pk =
    (case proofs of
       Some (JArr ps) \<Rightarrow> verifyChain env now ps pk
     | Some (JStr s) \<Rightarrow> if s = [] then verifyChain env now [] pk else Inl TypeError
     | Some (JObj ms) \<Rightarrow>
         if map_of ms ''length'' = Some (JNum 0) then verifyChain env now [] pk
         else Inl TypeError
     | _ \<Rightarrow> Inl TypeError)"

definition verifyExportedChain :: "env \<Rightarrow> (nat \<Rightarrow> int) \<Rightarrow> json \<Rightarrow> error + vresult" where
  "verifyExportedChain env now exportedChain =
    (case get exportedChain ''metadata'' of
       Inl e \<Rightarrow> Inl e
     | Inr md \<Rightarrow>
        (let pk = (case md of None \<Rightarrow> None | Some JNull \<Rightarrow> None
                   | Some m \<Rightarrow> field m ''publicKey'')
         in if \<not> truthy pk
            then Inr \<lparr>valid = False, errors = [''Missing public key in chain metadata''],
                      warnings = []\<rparr>
            else verifyChain_value env now (field exportedChain ''proofs'') pk))"

section \<open>\<^verbatim>\<open>chain.js\<close>\<close>

text \<open>
  \<^verbatim>\<open>ProofChain\<close> (lines 495 to 679). \<open>ProofChain_new\<close> is the constructor for a chain
  that starts empty: \<^verbatim>\<open>storePath\<close> is \<^verbatim>\<open>null\<close> or names no existing file. (Where the
  file exists the constructor goes on with \<^verbatim>\<open>load\<close>, which is not part of this
  development.) \<open>created\<close> is the clock reading of \<^verbatim>\<open>new Date()\<close>.
\<close>

record chain =
  keypair :: keypair
  agentId :: string
  storePath :: "path option"
  proofs :: "json list"
  metadata :: json

definition ProofChain_new :: "env \<Rightarrow> int \<Rightarrow> keypair \<Rightarrow> path option \<Rightarrow> chain" where
  "ProofChain_new env created kp sp =
    \<lparr>keypair = kp,
     agentId = agent_id env (publicKey kp),
     storePath = sp,
     proofs = [],
     metadata = JObj [(''created'', JStr (toISOString env created)),
                      (''agentId'', JStr (agent_id env (publicKey kp))),
                      (''publicKey'', JStr (publicKey kp))]\<rparr>"

text \<open>\<^verbatim>\<open>getLastHash\<close> (lines 520 to 523): \<^verbatim>\<open>null\<close> for the empty chain, else the
  \<^verbatim>\<open>hash\<close> of the last proof.\<close>

definition getLastHash :: "chain \<Rightarrow> error + json option" where
  "getLastHash c = (if proofs c = [] then Inr (Some JNull) else get (last (proofs c)) ''hash'')"

text \<open>\<^verbatim>\<open>save\<close> (lines 603 to 619); \<^verbatim>\<open>writeFileSync\<close> without a mode asks for the mode
  \<^verbatim>\<open>0o666\<close>, which is 438. (The mode recorded for a file is the mode asked for; the
  bits that the umask of the process clears are not modelled.)\<close>

definition chain_json :: "chain \<Rightarrow> json" where
  "chain_json c = JObj [(''metadata'', metadata c), (''proofs'', JArr (proofs c))]"

definition save :: "chain \<Rightarrow> fs \<Rightarrow> fs \<times> error option" where
  "save c fs =
    (case storePath c of
       None \<Rightarrow> (fs, Some (Error ''No store path configured''))
     | Some p \<Rightarrow>
        (let dir = butlast p in
         case (if \<not> existsSync fs dir then mkdirSync_recursive fs dir else Inr fs) of
           Inl e \<Rightarrow> (fs, Some e)
         | Inr fs1 \<Rightarrow>
            (case writeFileSync fs1 p (Json_text (chain_json c)) 438 of
               Inl e \<Rightarrow> (fs1, Some e)
             | Inr fs2 \<Rightarrow> (fs2, None))))"

text \<open>
  \<^verbatim>\<open>add\<close> (lines 533 to 549), called with an object, returns the proof or the error
  thrown, together with the chain and the file system it leaves behind: when \<^verbatim>\<open>save\<close>
  throws, the proof is already pushed. \<open>t\<close> is the clock reading that stamps the proof.
  \<open>action\<close> and \<open>data\<close> are \<open>None\<close> when the object does not have them, and are handed
  on as they are; a missing \<^verbatim>\<open>metadata\<close> is \<^verbatim>\<open>{}\<close>.
\<close>

definition add ::
  "env \<Rightarrow> int \<Rightarrow> json option \<Rightarrow> json option \<Rightarrow> json option \<Rightarrow> chain \<times> fs
     \<Rightarrow> (error + json) \<times> chain \<times> fs" where
  "add env t action data md = (\<lambda>(c, fs).
    (case getLastHash c of
       Inl e \<Rightarrow> (Inl e, c, fs)
     | Inr lastHash \<Rightarrow>
        (case createProof env t action data (Some (JStr (agentId c))) lastHash
                (Some (case md of None \<Rightarrow> JObj [] | Some m \<Rightarrow> m)) (privateKey (keypair c)) of
           Inl e \<Rightarrow> (Inl e, c, fs)
         | Inr proof \<Rightarrow>
            (let c' = c\<lparr>proofs := proofs c @ [proof]\<rparr> in
             case storePath c of
               None \<Rightarrow> (Inr proof, c', fs)
             | Some p \<Rightarrow>
                (case save c' fs of
                   (fs', Some e) \<Rightarrow> (Inl e, c', fs')
                 | (fs', None) \<Rightarrow> (Inr proof, c', fs'))))))"




section \<open>The \<^verbatim>\<open>init\<close> command\<close>

text \<open>
  \<^verbatim>\<open>cmdInit\<close> (lines 97 to 114 of the CLI). The process has a file system and two output
  streams; it returns, exits with a status, or dies of an uncaught error. \<open>generated\<close>
  is the keypair that \<^verbatim>\<open>generateKeypair()\<close> draws.
\<close>

record world =
  files :: fs
  stdout :: "string list"
  stderr :: "string list"

datatype outcome = Returned | Exited nat | Uncaught error

definition path_text :: "path \<Rightarrow> string" where
  "path_text p = join ''/'' p"

definition cmdInit :: "env \<Rightarrow> keypair \<Rightarrow> path \<Rightarrow> world \<Rightarrow> world \<times> outcome" where
  "cmdInit env generated key w =
    (if existsSync (files w) key
     then (w\<lparr>stderr := stderr w
               @ [''Error: Keypair already exists at '' @ path_text key,
                  ''Delete it first if you want to generate a new one.'']\<rparr>,
           Exited 1)
     else
       (case saveKeypair generated key (files w) of
          (fs', Some e) \<Rightarrow> (w\<lparr>files := fs'\<rparr>, Uncaught e)
        | (fs', None) \<Rightarrow>
           (w\<lparr>files := fs',
              stdout := stdout w
               @ [[CHR 0xE2, CHR 0x9C, CHR 0x85] @ '' Generated new keypair'',
                  ''   Agent ID: '' @ agent_id env (publicKey generated),
                  ''   Key file: '' @ path_text key,
                  ''   Public key: '' @ take 40 (publicKey generated) @ ''...'',
                  [CHR 0x0A, CHR 0xE2, CHR 0x9A, CHR 0xA0, CHR 0xEF, CHR 0xB8, CHR 0x8F]
                    @ ''  Keep your keypair.json safe! It proves your identity.'']\<rparr>,
            Returned)))"

section \<open>A concrete runtime\<close>

text \<open>
  An instance of \<open>env\<close> on which the engine can be run. Its clock functions are those
  of the runtime on timestamps in the format \<^verbatim>\<open>YYYY-MM-DDTHH:mm:ss.sssZ\<close> that
  \<^verbatim>\<open>toISOString\<close> writes, for the years 0 to 9999 (days are counted from the civil date
  as in the proleptic Gregorian calendar); a number is its own time value and \<^verbatim>\<open>null\<close>
  is 0. Other strings, arrays and objects, some of which the runtime reads as dates in
  other formats, are answered \<^verbatim>\<open>NaN\<close> by this instance.
\<close>

definition days_from_civil :: "int \<Rightarrow> int \<Rightarrow> int \<Rightarrow> int" where
  "days_from_civil y m d =
    (let y' = (if m \<le> 2 then y - 1 else y);
         era = y' div 400;
         yoe = y' - era * 400;
         doy = (153 * (if m > 2 then m - 3 else m + 9) + 2) div 5 + d - 1;
         doe = yoe * 365 + yoe div 4 - yoe div 100 + doy
     in era * 146097 + doe - 719468)"

definition civil_from_days :: "int \<Rightarrow> int \<times> int \<times> int" where
  "civil_from_days z =
    (let z' = z + 719468;
         era = z' div 146097;
         doe = z' - era * 146097;
         yoe = (doe - doe div 1460 + doe div 36524 - doe div 146096) div 365;
         doy = doe - (365 * yoe + yoe div 4 - yoe div 100);
         mp = (5 * doy + 2) div 153;
         d = doy - (153 * mp + 2) div 5 + 1;
         m = (if mp < 10 then mp + 3 else mp - 9);
         y = yoe + era * 400 + (if m \<le> 2 then 1 else 0)
     in (y, m, d))"

definition days_in_month :: "int \<Rightarrow> int \<Rightarrow> int" where
  "days_in_month y m =
    (if m = 2 then (if y mod 4 = 0 \<and> (y mod 100 \<noteq> 0 \<or> y mod 400 = 0) then 29 else 28)
     else if m = 4 \<or> m = 6 \<or> m = 9 \<or> m = 11 then 30 else 31)"

definition digits_value :: "string \<Rightarrow> int option" where
  "digits_value s = (if s \<noteq> [] \<and> list_all is_digit s then Some (dec_value s) else None)"

definition parse_iso :: "string \<Rightarrow> int option" where
  "parse_iso s =
    (if length s = 24 \<and> s ! 4 = CHR ''-'' \<and> s ! 7 = CHR ''-'' \<and> s ! 10 = CHR ''T''
        \<and> s ! 13 = CHR '':'' \<and> s ! 16 = CHR '':'' \<and> s ! 19 = CHR ''.'' \<and> s ! 23 = CHR ''Z''
     then
       (case (digits_value (take 4 s), digits_value (take 2 (drop 5 s)),
              digits_value (take 2 (drop 8 s)), digits_value (take 2 (drop 11 s)),
              digits_value (take 2 (drop 14 s)), digits_value (take 2 (drop 17 s)),
              digits_value (take 3 (drop 20 s))) of
          (Some y, Some mo, Some d, Some h, Some mi, Some sec, Some ms) \<Rightarrow>
            if 1 \<le> mo \<and> mo \<le> 12 \<and> 1 \<le> d \<and> d \<le> days_in_month y mo
               \<and> h \<le> 23 \<and> mi \<le> 59 \<and> sec \<le> 59
            then Some ((((days_from_civil y mo d * 24 + h) * 60 + mi) * 60 + sec) * 1000 + ms)
            else None
        | _ \<Rightarrow> None)
     else None)"

fun Date_getTime :: "json \<Rightarrow> int option" where
  "Date_getTime (JStr s) = parse_iso s"
| "Date_getTime (JNum n) = Some n"
| "Date_getTime JNull = Some 0"
| "Date_getTime (JBool b) = Some (if b then 1 else 0)"
| "Date_getTime v = None"

definition pad :: "nat \<Rightarrow> int \<Rightarrow> string" where
  "pad w n = replicate (w - length (show_dec n)) (CHR ''0'') @ show_dec n"

definition Date_toISOString :: "int \<Rightarrow> string" where
  "Date_toISOString t =
    (let ms = t mod 86400000 in
     case civil_from_days (t div 86400000) of
       (y, m, d) \<Rightarrow>
         pad 4 y @ ''-'' @ pad 2 m @ ''-'' @ pad 2 d @ ''T''
           @ pad 2 (ms div 3600000) @ '':'' @ pad 2 (ms div 60000 mod 60) @ '':''
           @ pad 2 (ms div 1000 mod 60) @ ''.'' @ pad 3 (ms mod 1000) @ ''Z'')"

text \<open>
  The crypto library of this instance is a stand-in with the interface of the real one:
  a 64-bit polynomial checksum printed as sixteen hexadecimal digits in place of
  SHA-256, and a signature scheme in which the two keys of a pair are the same string
  and a signature is the key followed by the checksum of the message. The empty string
  is a key that does not decode.
\<close>

definition demo_checksum :: "string \<Rightarrow> int" where
  "demo_checksum s = foldl (\<lambda>h c. (h * 31 + of_char c) mod 18446744073709551616) 7 s"

fun hex_digits :: "nat \<Rightarrow> int \<Rightarrow> string" where
  "hex_digits 0 n = []"
| "hex_digits (Suc w) n = hex_digits w (n div 16) @ [show_digit (nat (n mod 16))]"

definition demo_digest :: "string \<Rightarrow> string" where
  "demo_digest s = hex_digits 16 (demo_checksum s)"

definition demo_sign :: "string \<Rightarrow> string \<Rightarrow> error + string" where
  "demo_sign k m = (if k = [] then Inl CryptoError else Inr (k @ ''.'' @ demo_digest m))"

definition demo_verify :: "json \<Rightarrow> string \<Rightarrow> json \<Rightarrow> bool option" where
  "demo_verify pk m s =
    (case (pk, s) of
       (JStr k, JStr sig) \<Rightarrow> if k = [] then None else Some (sig = k @ ''.'' @ demo_digest m)
     | _ \<Rightarrow> None)"

definition demo_env :: env where
  "demo_env = \<lparr>sha256_hex = demo_digest, ed25519_sign = demo_sign,
               ed25519_verify = demo_verify, date_getTime = Date_getTime,
               toISOString = Date_toISOString\<rparr>"

definition demo_keypair :: keypair where
  "demo_keypair = \<lparr>publicKey = ''MCowBQYDK2VwAyEA'', privateKey = Some ''MCowBQYDK2VwAyEA''\<rparr>"

section \<open>Notions used by the statements\<close>


text \<open>The time of a proof: what the runtime reads from its timestamp, \<^verbatim>\<open>NaN\<close> where
  there is none.\<close>

definition read_time :: "env \<Rightarrow> json option \<Rightarrow> int option" where
  "read_time env v = (case v of None \<Rightarrow> None | Some x \<Rightarrow> date_getTime env x)"

text \<open>The warnings the temporal check is to give on a chain: one for every proof whose
  time is more than 1000 milliseconds before the time of the proof before it.\<close>

definition temporal_warnings :: "env \<Rightarrow> json list \<Rightarrow> string list" where
  "temporal_warnings env ps =
    concat (map (\<lambda>i. if js_less (read_time env (field (ps ! i) ''timestamp''))
                         (map_option (\<lambda>t. t - 1000)
                            (read_time env (field (ps ! (i - 1)) ''timestamp'')))
                    then [earlier_timestamp i] else [])
              [1..<length ps])"

text \<open>The warnings the check of the single proofs is to give on a chain: one for every
  proof that has all required fields and whose time is more than 60000 milliseconds
  after the clock reading of its check.\<close>

definition future_warnings :: "env \<Rightarrow> (nat \<Rightarrow> int) \<Rightarrow> json list \<Rightarrow> string list" where
  "future_warnings env now ps =
    concat (map (\<lambda>i. if list_all (\<lambda>f. field (ps ! i) f \<noteq> None) required_fields
                         \<and> js_less (Some (now i + 60000))
                               (read_time env (field (ps ! i) ''timestamp''))
                    then [''Proof '' @ show_nat i @ '': Proof timestamp is in the future'']
                    else [])
              [0..<length ps])"

text \<open>The text of one member in the canonical text of an object; a member that is
  \<^verbatim>\<open>undefined\<close> has none.\<close>

definition member_text :: "string \<Rightarrow> json option \<Rightarrow> string list" where
  "member_text k v =
    (case v of None \<Rightarrow> [] | Some x \<Rightarrow> [quote k @ '':'' @ stringify (sortKeys x)])"

text \<open>What a result says about validity: whether it is valid, and its errors.\<close>

definition verdict :: "error + vresult \<Rightarrow> error + bool \<times> string list" where
  "verdict x = map_sum id (\<lambda>r. (valid r, errors r)) x"


fun add_all :: "env \<Rightarrow> (int \<times> json \<times> json \<times> json option) list \<Rightarrow> chain \<times> fs \<Rightarrow> chain \<times> fs" where
  "add_all env [] s = s"
| "add_all env ((t, a, d, m) # calls) s =
     add_all env calls (snd (add env t (Some a) (Some d) m s))"

text \<open>\<^verbatim>\<open>proofs[k].previousHash = v\<close> and the like, on a proof that is an object.\<close>

fun set_field :: "json \<Rightarrow> string \<Rightarrow> json \<Rightarrow> json" where
  "set_field (JObj ms) name v = JObj (obj_assign ms name v)"
| "set_field p name v = p"

section \<open>Keypairs and built chains\<close>

text \<open>
  The keypair of a chain is an Ed25519 pair: what the private key signs, the public key
  verifies. \<open>created_by\<close> is a proof that \<^verbatim>\<open>createProof\<close> returned for an action and
  data, for the agent of the keypair, after the hash \<open>prev\<close>; \<open>built\<close> is a list of proofs each of which was
  created after the hash of the one before it, the first after \<^verbatim>\<open>null\<close>; \<open>links_ok\<close>
  is the linkage of a list of proofs to the proof before it.
\<close>

definition keypair_ok :: "env \<Rightarrow> keypair \<Rightarrow> bool" where
  "keypair_ok env kp =
    (\<forall>k m s. privateKey kp = Some k \<longrightarrow> ed25519_sign env k m = Inr s
        \<longrightarrow> ed25519_verify env (JStr (publicKey kp)) m (JStr s) = Some True)"

definition created_by :: "env \<Rightarrow> keypair \<Rightarrow> json option \<Rightarrow> json \<Rightarrow> bool" where
  "created_by env kp prev p =
    (\<exists>t a d m. createProof env t (Some a) (Some d) (Some (JStr (agent_id env (publicKey kp))))
                  prev (Some m) (privateKey kp) = Inr p)"

inductive built :: "env \<Rightarrow> keypair \<Rightarrow> json list \<Rightarrow> bool" for env kp where
  built_empty: "built env kp []"
| built_add: "built env kp ps
    \<Longrightarrow> created_by env kp (if ps = [] then Some JNull else field (last ps) ''hash'') p
    \<Longrightarrow> built env kp (ps @ [p])"

fun links_ok :: "json \<Rightarrow> json list \<Rightarrow> bool" where
  "links_ok prev [] = True"
| "links_ok prev (c # rest) =
     (strict_eq (field c ''previousHash'') (field prev ''hash'') \<and> links_ok c rest)"

section \<open>Example data\<close>




text \<open>A payload as \<^verbatim>\<open>JSON.parse\<close> reads it from \<^verbatim>\<open>{"inner": {"__proto__": x}}\<close>, for
  instance from \<^verbatim>\<open>{"inner": {"__proto__": {"value": 1}}}\<close>.\<close>

definition payload_hidden :: "json \<Rightarrow> json" where
  "payload_hidden x = JObj [(''inner'', JObj [(''__proto__'', x)])]"

definition hidden_value :: "int \<Rightarrow> json" where
  "hidden_value n = JObj [(''value'', JNum n)]"

text \<open>An object whose keys are array indices: \<^verbatim>\<open>{"10": 1, "9": 2}\<close>.\<close>

definition payload_indices :: json where
  "payload_indices = JObj [(''9'', JNum 2), (''10'', JNum 1)]"

text \<open>A chain whose second proof is stamped thirty seconds before its first, and a
  chain of three proofs.\<close>

definition skewed_chain :: chain where
  "skewed_chain =
    fst (add_all demo_env
          [(1767225630000, JStr ''decision'', JObj [(''step'', JNum 1)], None),
           (1767225600000, JStr ''tool_call'', JObj [(''step'', JNum 2)], None)]
          (ProofChain_new demo_env 1767225600000 demo_keypair None, Map.empty))"

definition three_calls :: "(int \<times> json \<times> json \<times> json option) list" where
  "three_calls =
    [(1767225601000, JStr ''decision'', JObj [(''x'', JNum 1)], None),
     (1767225602000, JStr ''tool_call'', JObj [(''y'', JObj [(''z'', JArr [JNum 1, JBool True])])],
      None),
     (1767225603000, JStr ''decision'', JObj [], Some (JObj [(''k'', JNull)]))]"




text \<open>A timestamp that has no primitive value, \<^verbatim>\<open>{"toString": 0}\<close>.\<close>

definition timestamp_object :: json where
  "timestamp_object = JObj [(''toString'', JNum 0)]"

text \<open>A file system that holds an identity file, and a second keypair.\<close>

definition key_path :: path where
  "key_path = [''home'', ''agent'', ''.agentproof'', ''keypair.json'']"

definition other_keypair :: keypair where
  "other_keypair = \<lparr>publicKey = ''MCowBQYDK2VwAyEB'', privateKey = Some ''MCowBQYDK2VwAyEB''\<rparr>"

definition home_fs :: fs where
  "home_fs =
    (\<lambda>p. if p = key_path then Some (File 384 (Json_text (keypair_json demo_keypair)))
          else if p \<in> set (ancestors (butlast key_path)) then Some Dir
          else None)"

section \<open>The empty chain\<close>

text \<open>
  Claim C10. For the empty proof sequence, \<^verbatim>\<open>verifyChain\<close> returns \<^verbatim>\<open>valid: true\<close> with
  an empty list of errors and exactly one warning, \<^verbatim>\<open>'Empty chain'\<close>, whatever the public
  key, the clock and the crypto library are.
\<close>

theorem verifyChain_empty:
  "verifyChain env now [] pk = Inr \<lparr>valid = True, errors = [], warnings = [''Empty chain'']\<rparr>"
  by (simp add: verifyChain_def)


section \<open>The hash of a built proof\<close>

lemma quote_keys:
  \<open>quote ''action'' = ''"action"''\<close>
  \<open>quote ''agentId'' = ''"agentId"''\<close>
  \<open>quote ''data'' = ''"data"''\<close>
  \<open>quote ''metadata'' = ''"metadata"''\<close>
  \<open>quote ''previousHash'' = ''"previousHash"''\<close>
  \<open>quote ''timestamp'' = ''"timestamp"''\<close>
  \<open>quote ''version'' = ''"version"''\<close>
  \<open>quote ''1.0'' = ''"1.0"''\<close>
  by (simp_all add: quote_def escape_char_def)

lemma defined_members_created:
  "defined_members (createProofData env t (Some a) (Some d) (Some aid) prev md) =
    [(''version'', JStr PROOF_VERSION), (''action'', a), (''data'', d), (''agentId'', aid),
     (''previousHash'', (case prev of None \<Rightarrow> JNull | Some h \<Rightarrow> h)),
     (''timestamp'', JStr (toISOString env t)),
     (''metadata'', (case md of None \<Rightarrow> JObj [] | Some m \<Rightarrow> m))]"
  by (simp add: defined_members_def createProofData_def)

text \<open>The canonical text of the proof data: the seven fields, in the order of their
  names.\<close>

lemma canonical_created:
  \<open>canonical (createProofData env t (Some a) (Some d) (Some aid) prev md) =
     ''{"action":'' @ stringify (sortKeys a)
     @ '',"agentId":'' @ stringify (sortKeys aid)
     @ '',"data":'' @ stringify (sortKeys d)
     @ '',"metadata":'' @ stringify (sortKeys (case md of None \<Rightarrow> JObj [] | Some m \<Rightarrow> m))
     @ '',"previousHash":'' @ stringify (sortKeys (case prev of None \<Rightarrow> JNull | Some h \<Rightarrow> h))
     @ '',"timestamp":'' @ quote (toISOString env t)
     @ '',"version":"1.0"}''\<close>
  by (simp add: canonical_def defined_members_created obj_assign_def array_index_def is_digit_def
        quote_keys PROOF_VERSION_def)

text \<open>The same where \<open>action\<close>, \<open>data\<close> or \<open>agentId\<close> may be \<^verbatim>\<open>undefined\<close>.\<close>

lemma canonical_createProofData:
  \<open>canonical (createProofData env t a d aid prev md) =
     ''{'' @ join '',''
       (member_text ''action'' a @ member_text ''agentId'' aid @ member_text ''data'' d
        @ member_text ''metadata'' (Some (case md of None \<Rightarrow> JObj [] | Some m \<Rightarrow> m))
        @ member_text ''previousHash'' (Some (case prev of None \<Rightarrow> JNull | Some h \<Rightarrow> h))
        @ member_text ''timestamp'' (Some (JStr (toISOString env t)))
        @ member_text ''version'' (Some (JStr ''1.0''))) @ ''}''\<close>
  by (cases a; cases d; cases aid)
     (simp_all add: canonical_def defined_members_def createProofData_def member_text_def
        obj_assign_def array_index_def is_digit_def PROOF_VERSION_def)

lemma createProof_Inr:
  assumes "createProof env t a d aid prev md priv = Inr p"
  shows "\<exists>k s. priv = Some k
           \<and> ed25519_sign env k (canonical (createProofData env t a d aid prev md)) = Inr s
           \<and> p = JObj (defined_members (createProofData env t a d aid prev md)
                        @ [(''hash'', JStr (hashProofData env (createProofData env t a d aid prev md))),
                           (''signature'', JStr s)])"
  using assms
  by (auto simp: createProof_def signProofData_def Let_def split: option.splits sum.splits)

lemma proof_fields_created:
  "proof_fields (JObj (defined_members (createProofData env t (Some a) (Some d) (Some aid) prev md)
                        @ [(''hash'', h), (''signature'', s)]))
   = createProofData env t (Some a) (Some d) (Some aid) prev md"
  unfolding defined_members_created
  by (simp add: proof_fields_def createProofData_def)

text \<open>What the verifier reads back from a proof is its proof data, up to the fields that
  are \<^verbatim>\<open>undefined\<close>.\<close>

lemma proof_fields_createProofData:
  "defined_members (proof_fields (JObj (defined_members (createProofData env t a d aid prev md)
                        @ [(''hash'', h), (''signature'', s)])))
   = defined_members (createProofData env t a d aid prev md)"
  by (cases a; cases d; cases aid)
     (simp_all add: proof_fields_def createProofData_def defined_members_def)

lemma canonical_cong:
  "defined_members pd = defined_members pd' \<Longrightarrow> canonical pd = canonical pd'"
  by (simp add: canonical_def)

text \<open>
  Claim C3. For every proof that \<^verbatim>\<open>createProof\<close> returns, the hash recomputed from the
  proof's own fields other than \<^verbatim>\<open>hash\<close> and \<^verbatim>\<open>signature\<close> is the stored \<^verbatim>\<open>hash\<close>
  (\<^verbatim>\<open>verifyHash\<close> answers true); the stored hash is the SHA-256 digest of the canonical
  text of these fields; and that text holds each of \<^verbatim>\<open>version\<close>, \<^verbatim>\<open>action\<close>, \<^verbatim>\<open>data\<close>,
  \<^verbatim>\<open>agentId\<close>, \<^verbatim>\<open>previousHash\<close>, \<^verbatim>\<open>timestamp\<close> and \<^verbatim>\<open>metadata\<close> that the proof has, under
  its name and in the order of the names.
\<close>

theorem createProof_hash_round_trip:
  assumes "createProof env t a d aid prev md priv = Inr p"
  shows \<open>verifyHash env p = Inr True
    \<and> field p ''hash'' = Some (JStr (hashProofData env (proof_fields p)))
    \<and> field p ''hash'' = Some (JStr (sha256_hex env (canonical (proof_fields p))))
    \<and> canonical (proof_fields p) =
        ''{'' @ join '',''
          (member_text ''action'' a @ member_text ''agentId'' aid @ member_text ''data'' d
           @ member_text ''metadata'' (Some (case md of None \<Rightarrow> JObj [] | Some m \<Rightarrow> m))
           @ member_text ''previousHash'' (Some (case prev of None \<Rightarrow> JNull | Some h \<Rightarrow> h))
           @ member_text ''timestamp'' (Some (JStr (toISOString env t)))
           @ member_text ''version'' (Some (JStr ''1.0''))) @ ''}''
    \<and> (\<forall>x y z. a = Some x \<and> d = Some y \<and> aid = Some z \<longrightarrow>
         canonical (proof_fields p) =
           ''{"action":'' @ stringify (sortKeys x)
           @ '',"agentId":'' @ stringify (sortKeys z)
           @ '',"data":'' @ stringify (sortKeys y)
           @ '',"metadata":'' @ stringify (sortKeys (case md of None \<Rightarrow> JObj [] | Some m \<Rightarrow> m))
           @ '',"previousHash":''
           @ stringify (sortKeys (case prev of None \<Rightarrow> JNull | Some h \<Rightarrow> h))
           @ '',"timestamp":'' @ quote (toISOString env t)
           @ '',"version":"1.0"}'')\<close>
proof -
  let ?pd = "createProofData env t a d aid prev md"
  from createProof_Inr [OF assms] obtain s where
    p: "p = JObj (defined_members ?pd
                   @ [(''hash'', JStr (hashProofData env ?pd)), (''signature'', JStr s)])"
    by blast
  have c: "canonical (proof_fields p) = canonical ?pd"
    unfolding p by (rule canonical_cong) (rule proof_fields_createProofData)
  then have hp: "hashProofData env (proof_fields p) = hashProofData env ?pd"
    by (simp add: hashProofData_def)
  have h: "field p ''hash'' = Some (JStr (hashProofData env ?pd))"
    unfolding p by (cases a; cases d; cases aid) (simp_all add: defined_members_def createProofData_def)
  have v: "verifyHash env p = Inr True"
    using h hp by (simp add: verifyHash_def p)
  have h2: "field p ''hash'' = Some (JStr (sha256_hex env (canonical (proof_fields p))))"
    using h c by (simp add: hashProofData_def)
  have full: \<open>\<forall>x y z. a = Some x \<and> d = Some y \<and> aid = Some z \<longrightarrow>
         canonical (proof_fields p) =
           ''{"action":'' @ stringify (sortKeys x)
           @ '',"agentId":'' @ stringify (sortKeys z)
           @ '',"data":'' @ stringify (sortKeys y)
           @ '',"metadata":'' @ stringify (sortKeys (case md of None \<Rightarrow> JObj [] | Some m \<Rightarrow> m))
           @ '',"previousHash":''
           @ stringify (sortKeys (case prev of None \<Rightarrow> JNull | Some h \<Rightarrow> h))
           @ '',"timestamp":'' @ quote (toISOString env t)
           @ '',"version":"1.0"}''\<close>
    using c canonical_created by auto
  from v h hp h2 c full show ?thesis
    by (simp add: canonical_createProofData)
qed

theorem createProof_hash_round_trip_witness:
  "\<exists>p. createProof demo_env 1767225601000 (Some (JStr ''decision''))
          (Some (JObj [(''x'', JNum 1)])) (Some (JStr ''agent-6082b0a4253fd5fb'')) None None
          (privateKey demo_keypair) = Inr p
       \<and> verifyHash demo_env p = Inr True
       \<and> field p ''hash'' = Some (JStr (sha256_hex demo_env (canonical (proof_fields p))))"
proof -
  obtain p where p: "createProof demo_env 1767225601000 (Some (JStr ''decision''))
          (Some (JObj [(''x'', JNum 1)])) (Some (JStr ''agent-6082b0a4253fd5fb'')) None None
          (privateKey demo_keypair) = Inr p"
    by (simp add: createProof_def signProofData_def demo_keypair_def demo_env_def demo_sign_def Let_def)
  from createProof_hash_round_trip [OF p] p show ?thesis by blast
qed


section \<open>Members the canonical text leaves out\<close>

lemma sortKeys_hidden: "sortKeys (payload_hidden x) = JObj [(''inner'', JObj [])]"
  by (simp add: payload_hidden_def obj_assign_def array_index_def is_digit_def)

lemma canonical_hidden:
  "canonical (proof_fields (JObj [(''version'', v), (''action'', a), (''data'', payload_hidden x),
            (''agentId'', aid), (''previousHash'', ph), (''timestamp'', ts), (''metadata'', md),
            (''hash'', h), (''signature'', s)]))
   = canonical [(''version'', Some v), (''action'', Some a),
            (''data'', Some (JObj [(''inner'', JObj [])])),
            (''agentId'', Some aid), (''previousHash'', Some ph), (''timestamp'', Some ts),
            (''metadata'', Some md)]"
  by (simp add: canonical_def proof_fields_def defined_members_def sortKeys_hidden
        obj_assign_def array_index_def is_digit_def)

text \<open>Keys that are array indices are not in the order of their code units: \<^verbatim>\<open>"9"\<close>
  comes before \<^verbatim>\<open>"10"\<close>.\<close>

lemma canonical_indices: \<open>stringify (sortKeys payload_indices) = ''{"9":2,"10":1}''\<close>
  by code_simp

text \<open>
  Claim C2 says that a change of any field nested two or more levels inside the data of
  a proof changes the canonical bytes and the hash and makes \<^verbatim>\<open>verifyProof\<close> fail. The
  code does not do so for a member named \<^verbatim>\<open>__proto__\<close>: \<^verbatim>\<open>sortKeys\<close> drops it, so
  a proof whose data is \<^verbatim>\<open>{"inner": {"__proto__": x}}\<close> and the same proof with any
  \<open>y\<close> in the place of \<open>x\<close> (\<^verbatim>\<open>{"value": 2}\<close> for \<^verbatim>\<open>{"value": 1}\<close>, say) have the same
  canonical text, and \<^verbatim>\<open>verifyProof\<close> returns for the changed proof what it returns for
  the original, whatever the other fields, the key, the clock and the crypto library are.
\<close>

theorem hidden_member_not_hashed:
  "verifyProof env now
     (JObj [(''version'', v), (''action'', a), (''data'', payload_hidden y), (''agentId'', aid),
            (''previousHash'', ph), (''timestamp'', ts), (''metadata'', md), (''hash'', h),
            (''signature'', s)]) pk
   = verifyProof env now
     (JObj [(''version'', v), (''action'', a), (''data'', payload_hidden x), (''agentId'', aid),
            (''previousHash'', ph), (''timestamp'', ts), (''metadata'', md), (''hash'', h),
            (''signature'', s)]) pk"
proof -
  let ?p = "\<lambda>z. JObj [(''version'', v), (''action'', a), (''data'', payload_hidden z),
            (''agentId'', aid), (''previousHash'', ph), (''timestamp'', ts), (''metadata'', md),
            (''hash'', h), (''signature'', s)]"
  have h: "verifyHash env (?p y) = verifyHash env (?p x)"
    unfolding verifyHash_def hashProofData_def canonical_hidden by simp
  have g: "verifySignature env (?p y) pk = verifySignature env (?p x) pk"
    unfolding verifySignature_def canonical_hidden by simp
  have i: "verifyAgentId env (?p y) pk = verifyAgentId env (?p x) pk"
    by (simp add: verifyAgentId_def)
  have t: "time_of env (field (?p y) ''timestamp'') = time_of env (field (?p x) ''timestamp'')"
    by simp
  show ?thesis
    unfolding verifyProof_def h g i t by (simp add: required_fields_def)
qed

text \<open>On the example runtime: a proof built with the data
  \<^verbatim>\<open>{"inner": {"__proto__": {"value": 1}}}\<close> is valid, and so is the same proof after the
  value was changed to 2.\<close>

lemma hidden_member_example:
  "(case createProof demo_env 1767225601000 (Some (JStr ''custom''))
           (Some (payload_hidden (hidden_value 1)))
           (Some (JStr (agent_id demo_env (publicKey demo_keypair)))) None None
           (privateKey demo_keypair) of
      Inl e \<Rightarrow> False
    | Inr p \<Rightarrow>
        verifyProof demo_env 1767225700000 p (Some (JStr (publicKey demo_keypair)))
          = Inr \<lparr>valid = True, errors = [], warnings = []\<rparr>
        \<and> set_field p ''data'' (payload_hidden (hidden_value 2)) \<noteq> p
        \<and> verifyProof demo_env 1767225700000
              (set_field p ''data'' (payload_hidden (hidden_value 2)))
              (Some (JStr (publicKey demo_keypair)))
          = Inr \<lparr>valid = True, errors = [], warnings = []\<rparr>)"
  by code_simp

section \<open>Independence of the key order\<close>








section \<open>Chains built by \<^verbatim>\<open>add\<close>\<close>


text \<open>The shape of a proof that \<^verbatim>\<open>createProof\<close> returned.\<close>

lemma created_fields:
  assumes "created_by env kp prev p"
  obtains v a d ts m h s k pd where
      "p = JObj [(''version'', v), (''action'', a), (''data'', d),
                (''agentId'', JStr (agent_id env (publicKey kp))),
                (''previousHash'', (case prev of None \<Rightarrow> JNull | Some x \<Rightarrow> x)),
                (''timestamp'', JStr ts), (''metadata'', m),
                (''hash'', JStr h), (''signature'', JStr s)]"
      "proof_fields p = pd"
      "h = hashProofData env pd"
      "privateKey kp = Some k"
      "ed25519_sign env k (canonical pd) = Inr s"
proof -
  from assms obtain t a d m where
    c: "createProof env t (Some a) (Some d) (Some (JStr (agent_id env (publicKey kp)))) prev
          (Some m) (privateKey kp) = Inr p"
    unfolding created_by_def by blast
  let ?pd = "createProofData env t (Some a) (Some d) (Some (JStr (agent_id env (publicKey kp))))
               prev (Some m)"
  from createProof_Inr [OF c] obtain k s where
    k: "privateKey kp = Some k" and s: "ed25519_sign env k (canonical ?pd) = Inr s"
    and p: "p = JObj (defined_members ?pd @ [(''hash'', JStr (hashProofData env ?pd)), (''signature'', JStr s)])"
    by blast
  have pf: "proof_fields p = ?pd" unfolding p by (rule proof_fields_created)
  have p': "p = JObj [(''version'', JStr PROOF_VERSION), (''action'', a), (''data'', d),
                (''agentId'', JStr (agent_id env (publicKey kp))),
                (''previousHash'', (case prev of None \<Rightarrow> JNull | Some x \<Rightarrow> x)),
                (''timestamp'', JStr (toISOString env t)), (''metadata'', m),
                (''hash'', JStr (hashProofData env ?pd)), (''signature'', JStr s)]"
    unfolding p by (simp add: defined_members_created)
  from p' pf k s show ?thesis by (rule that [OF _ _ refl])
qed

lemma created_not_null:
  assumes "created_by env kp prev p" shows "p \<noteq> JNull"
  using assms by (rule created_fields) simp

lemma created_previousHash:
  assumes "created_by env kp prev p"
  shows "field p ''previousHash'' = Some (case prev of None \<Rightarrow> JNull | Some x \<Rightarrow> x)"
  using assms by (rule created_fields) simp

lemma created_hash:
  assumes "created_by env kp prev p" shows "\<exists>h. field p ''hash'' = Some (JStr h)"
  using assms by (rule created_fields) simp

lemma created_agentId:
  assumes "created_by env kp prev p"
  shows "field p ''agentId'' = Some (JStr (agent_id env (publicKey kp)))"
  using assms by (rule created_fields) simp

text \<open>The timestamp of such a proof is a string, which the \<^verbatim>\<open>Date\<close> constructor reads
  without throwing.\<close>

lemma created_timestamp:
  assumes "created_by env kp prev p" shows "\<exists>ts. field p ''timestamp'' = Some (JStr ts)"
  using assms by (rule created_fields) simp

lemma time_of_string:
  "field p ''timestamp'' = Some (JStr ts)
    \<Longrightarrow> time_of env (field p ''timestamp'') = Inr (date_getTime env (JStr ts))"
  by (simp add: time_of_def)

lemma time_of_Inr:
  "time_of env v = Inr t \<Longrightarrow> t = read_time env v"
  by (auto simp: time_of_def read_time_def split: option.splits if_splits)

lemma created_verifies:
  assumes "created_by env kp prev p" and "keypair_ok env kp"
  shows "\<exists>ws. verifyProof env n p (Some (JStr (publicKey kp)))
           = Inr \<lparr>valid = True, errors = [], warnings = ws\<rparr>"
proof -
  from assms(1) obtain v a d ts m h s k pd where
    p: "p = JObj [(''version'', v), (''action'', a), (''data'', d),
                (''agentId'', JStr (agent_id env (publicKey kp))),
                (''previousHash'', (case prev of None \<Rightarrow> JNull | Some x \<Rightarrow> x)),
                (''timestamp'', JStr ts), (''metadata'', m),
                (''hash'', JStr h), (''signature'', JStr s)]"
    and pf: "proof_fields p = pd"
    and h: "h = hashProofData env pd"
    and k: "privateKey kp = Some k"
    and s: "ed25519_sign env k (canonical pd) = Inr s"
    by (rule created_fields)
  have sig: "ed25519_verify env (JStr (publicKey kp)) (canonical pd) (JStr s) = Some True"
    using assms(2) k s unfolding keypair_ok_def by blast
  have fh: "field p ''hash'' = Some (JStr h)" and fs: "field p ''signature'' = Some (JStr s)"
    and fa: "field p ''agentId'' = Some (JStr (agent_id env (publicKey kp)))"
    and nn: "\<And>x y. (case p of JNull \<Rightarrow> x | _ \<Rightarrow> y) = y"
    and miss: "filter (\<lambda>f. field p f = None) required_fields = []"
    unfolding p by (simp_all add: required_fields_def)
  have 1: "verifyAgentId env p (Some (JStr (publicKey kp))) = Inr True"
    using fa by (simp add: verifyAgentId_def deriveAgentId_def p)
  have 2: "verifyHash env p = Inr True"
    unfolding verifyHash_def nn fh pf using h by simp
  have 3: "verifySignature env p (Some (JStr (publicKey kp)))"
    unfolding verifySignature_def nn fs pf using sig by simp
  have 4: "time_of env (field p ''timestamp'') = Inr (date_getTime env (JStr ts))"
    by (rule time_of_string) (simp add: p)
  show ?thesis
    unfolding verifyProof_def nn miss 4 by (simp add: 1 2 3 Let_def)
qed


text \<open>The first loop on two lists in a row, and on proofs that are all valid.\<close>

lemma verify_each_append:
  "verify_each env now pk i (xs @ ys) =
     (case verify_each env now pk i xs of
        Inl e \<Rightarrow> Inl e
      | Inr (e1, w1) \<Rightarrow>
         (case verify_each env now pk (i + length xs) ys of
            Inl e \<Rightarrow> Inl e
          | Inr (e2, w2) \<Rightarrow> Inr (e1 @ e2, w1 @ w2)))"
proof (induction xs arbitrary: i)
  case Nil
  then show ?case by (simp split: sum.splits)
next
  case (Cons x xs)
  show ?case
    by (simp add: Cons.IH [where i = "Suc i"] split: sum.splits prod.splits)
qed

lemma verify_each_valid:
  assumes "\<And>p n. p \<in> set ps \<Longrightarrow>
             \<exists>ws. verifyProof env n p pk = Inr \<lparr>valid = True, errors = [], warnings = ws\<rparr>"
  shows "\<exists>ws. verify_each env now pk i ps = Inr ([], ws)"
  using assms
proof (induction ps arbitrary: i)
  case Nil
  then show ?case by simp
next
  case (Cons p ps)
  from Cons.prems [of p "now i"] obtain w where
    w: "verifyProof env (now i) p pk = Inr \<lparr>valid = True, errors = [], warnings = w\<rparr>"
    by auto
  from Cons.IH [where i = "Suc i"] Cons.prems obtain ws where
    ws: "verify_each env now pk (Suc i) ps = Inr ([], ws)"
    by auto
  show ?case by (simp add: w ws)
qed

text \<open>The second loop on two lists in a row, and on proofs that are linked.\<close>

lemma check_links_append:
  "check_links env i prev (xs @ ys) =
     (case check_links env i prev xs of
        Inl e \<Rightarrow> Inl e
      | Inr (e1, w1) \<Rightarrow>
         (case check_links env (i + length xs) (last (prev # xs)) ys of
            Inl e \<Rightarrow> Inl e
          | Inr (e2, w2) \<Rightarrow> Inr (e1 @ e2, w1 @ w2)))"
proof (induction xs arbitrary: i prev)
  case Nil
  then show ?case by (simp split: sum.splits)
next
  case (Cons x xs)
  show ?case
    by (simp add: Cons.IH [where i = "Suc i" and prev = x] Let_def
          split: sum.splits prod.splits)
qed

lemma check_links_ok:
  assumes "links_ok prev ps" and "JNull \<notin> set (prev # ps)"
    and "\<forall>p \<in> set (prev # ps). \<exists>ts. field p ''timestamp'' = Some (JStr ts)"
  shows "\<exists>ws. check_links env i prev ps = Inr ([], ws)"
  using assms
proof (induction ps arbitrary: i prev)
  case Nil
  then show ?case by simp
next
  case (Cons c rest)
  from Cons.prems have l: "strict_eq (field c ''previousHash'') (field prev ''hash'')"
    and r: "links_ok c rest" and n: "JNull \<notin> set (c # rest)" and c: "c \<noteq> JNull"
    and p: "prev \<noteq> JNull"
    and t: "\<forall>p \<in> set (c # rest). \<exists>ts. field p ''timestamp'' = Some (JStr ts)"
    by auto
  from Cons.prems(3) obtain tp tc where
    tp: "field prev ''timestamp'' = Some (JStr tp)" and tc: "field c ''timestamp'' = Some (JStr tc)"
    by auto
  from Cons.IH [OF r n t, where i = "Suc i"] obtain ws where
    ws: "check_links env (Suc i) c rest = Inr ([], ws)" by blast
  have gc: "get c ''previousHash'' = Inr (field c ''previousHash'')" using c by (cases c) auto
  have gp: "get prev ''hash'' = Inr (field prev ''hash'')" using p by (cases prev) auto
  show ?case by (simp add: gc gp ws l time_of_string [OF tp] time_of_string [OF tc])
qed

lemma links_ok_append:
  "links_ok prev (xs @ ys) = (links_ok prev xs \<and> links_ok (last (prev # xs)) ys)"
  by (induction xs arbitrary: prev) auto

lemma links_ok_hash:
  "field p' ''hash'' = field p ''hash'' \<Longrightarrow> links_ok p' ys = links_ok p ys"
  by (cases ys) auto

text \<open>The set of agent identifiers.\<close>

lemma agentIds_same:
  assumes "\<And>p. p \<in> set ps \<Longrightarrow> p \<noteq> JNull \<and> field p ''agentId'' = Some (JStr a)"
  shows "agentIds ps = Inr (replicate (length ps) (Some (JStr a)))"
  using assms
proof (induction ps)
  case Nil
  then show ?case by simp
next
  case (Cons p ps)
  from Cons.prems [of p] have "get p ''agentId'' = Inr (Some (JStr a))"
    by (cases p) auto
  with Cons show ?case by simp
qed

lemma foldl_set_add_member:
  "x \<in> set s \<Longrightarrow> strict_eq x x \<Longrightarrow> foldl set_add s (replicate n x) = s"
  by (induction n) (auto simp: set_add_def list_ex_iff)

lemma set_size_replicate: "set_size (replicate n (Some (JStr a))) \<le> 1"
proof (cases n)
  case 0
  then show ?thesis by (simp add: set_size_def)
next
  case (Suc m)
  have "foldl set_add [] (replicate n (Some (JStr a)))
          = foldl set_add [Some (JStr a)] (replicate m (Some (JStr a)))"
    unfolding Suc by (simp add: set_add_def)
  also have "\<dots> = [Some (JStr a)]"
    by (rule foldl_set_add_member) simp_all
  finally show ?thesis by (simp add: set_size_def)
qed

text \<open>What \<^verbatim>\<open>add\<close> keeps true of a chain.\<close>

lemma built_facts:
  assumes "built env kp ps"
  shows "(\<forall>p \<in> set ps. \<exists>prev. created_by env kp prev p)
       \<and> (ps \<noteq> [] \<longrightarrow> field (hd ps) ''previousHash'' = Some JNull \<and> links_ok (hd ps) (tl ps))"
  using assms
proof (induction rule: built.induct)
  case built_empty
  then show ?case by simp
next
  case (built_add ps p)
  from built_add.IH built_add.hyps(2)
  have all: "\<forall>x \<in> set (ps @ [p]). \<exists>prev. created_by env kp prev x" by auto
  show ?case
  proof (cases "ps = []")
    case True
    with built_add.hyps(2) all show ?thesis
      by (auto dest: created_previousHash)
  next
    case False
    then obtain q qs where ps: "ps = q # qs" by (cases ps) auto
    from built_add.hyps(2) False
    have c: "created_by env kp (field (last ps) ''hash'') p" by simp
    from built_add.IH False obtain prev' where "created_by env kp prev' (last ps)"
      using last_in_set by blast
    then obtain h where h: "field (last ps) ''hash'' = Some (JStr h)"
      using created_hash by blast
    from created_previousHash [OF c] h
    have l: "strict_eq (field p ''previousHash'') (field (last ps) ''hash'')" by simp
    from built_add.IH ps have f: "field q ''previousHash'' = Some JNull"
      and lo: "links_ok q qs" by auto
    have "links_ok q (qs @ [p])"
      unfolding links_ok_append using lo l ps by simp
    with f all show ?thesis by (simp add: ps)
  qed
qed

lemma add_built:
  assumes "built env kp (proofs c)" and "keypair c = kp"
    and "agentId c = agent_id env (publicKey kp)"
  shows "built env kp (proofs (fst (snd (add env t (Some a) (Some d) m (c, fs)))))
       \<and> keypair (fst (snd (add env t (Some a) (Some d) m (c, fs)))) = kp
       \<and> agentId (fst (snd (add env t (Some a) (Some d) m (c, fs))))
           = agent_id env (publicKey kp)"
proof (cases "getLastHash c")
  case (Inl e)
  with assms show ?thesis by (simp add: add_def)
next
  case (Inr lastHash)
  show ?thesis
  proof (cases "createProof env t (Some a) (Some d) (Some (JStr (agentId c))) lastHash
                  (Some (case m of None \<Rightarrow> JObj [] | Some x \<Rightarrow> x)) (privateKey (keypair c))")
    case (Inl e)
    with Inr assms show ?thesis by (simp add: add_def)
  next
    case cp: (Inr p)
    have lh: "lastHash = (if proofs c = [] then Some JNull else field (last (proofs c)) ''hash'')"
    proof (cases "proofs c = []")
      case True
      with Inr show ?thesis by (simp add: getLastHash_def)
    next
      case False
      with built_facts [OF assms(1)] obtain prev where "created_by env kp prev (last (proofs c))"
        using last_in_set by blast
      then have "last (proofs c) \<noteq> JNull" by (rule created_not_null)
      then have "get (last (proofs c)) ''hash'' = Inr (field (last (proofs c)) ''hash'')"
        by (cases "last (proofs c)") auto
      with Inr False show ?thesis by (simp add: getLastHash_def)
    qed
    have "createProof env t (Some a) (Some d) (Some (JStr (agent_id env (publicKey kp))))
            (if proofs c = [] then Some JNull else field (last (proofs c)) ''hash'')
            (Some (case m of None \<Rightarrow> JObj [] | Some x \<Rightarrow> x)) (privateKey kp) = Inr p"
      using cp assms(2,3) lh by simp
    then have "created_by env kp (if proofs c = [] then Some JNull else field (last (proofs c)) ''hash'') p"
      unfolding created_by_def by blast
    with assms(1) have b: "built env kp (proofs c @ [p])" by (rule built_add)
    show ?thesis
      using Inr cp b assms(2,3)
      by (auto simp: add_def Let_def split: option.splits prod.splits)
  qed
qed

lemma add_all_built:
  assumes "built env kp (proofs (fst s))" and "keypair (fst s) = kp"
    and "agentId (fst s) = agent_id env (publicKey kp)"
  shows "built env kp (proofs (fst (add_all env calls s)))"
  using assms
proof (induction calls arbitrary: s)
  case Nil
  then show ?case by simp
next
  case (Cons call calls)
  obtain t a d m where call: "call = (t, a, d, m)" by (cases call) auto
  obtain c fs where s: "s = (c, fs)" by (cases s) auto
  from add_built [of env kp c, where t = t and a = a and d = d and m = m and fs = fs] Cons.prems s
  have "built env kp (proofs (fst (snd (add env t (Some a) (Some d) m s))))"
    and "keypair (fst (snd (add env t (Some a) (Some d) m s))) = kp"
    and "agentId (fst (snd (add env t (Some a) (Some d) m s))) = agent_id env (publicKey kp)"
    by auto
  from Cons.IH [OF this] show ?case by (simp add: call)
qed

lemma new_chain_built:
  "built env kp (proofs (fst (add_all env calls (ProofChain_new env created kp sp, fs))))"
  by (rule add_all_built) (simp_all add: ProofChain_new_def built_empty)



text \<open>A chain that was built verifies.\<close>

lemma built_verifies:
  assumes "built env kp ps" and "keypair_ok env kp"
  shows "\<exists>ws. verifyChain env now ps (Some (JStr (publicKey kp)))
           = Inr \<lparr>valid = True, errors = [], warnings = ws\<rparr>"
proof (cases "ps = []")
  case True
  then show ?thesis by (simp add: verifyChain_def)
next
  case False
  from built_facts [OF assms(1)] False
  have cr: "\<And>p. p \<in> set ps \<Longrightarrow> \<exists>prev. created_by env kp prev p"
    and fp: "field (hd ps) ''previousHash'' = Some JNull"
    and lo: "links_ok (hd ps) (tl ps)"
    by auto
  have nn: "JNull \<notin> set ps"
    using cr created_not_null by blast
  have "\<exists>ws. verify_each env now (Some (JStr (publicKey kp))) 0 ps = Inr ([], ws)"
    by (rule verify_each_valid) (use cr created_verifies assms(2) in blast)
  then obtain ws1 where ve: "verify_each env now (Some (JStr (publicKey kp))) 0 ps = Inr ([], ws1)"
    by blast
  have "hd ps # tl ps = ps" using False by simp
  with nn have "JNull \<notin> set (hd ps # tl ps)" by simp
  moreover have "\<forall>p \<in> set (hd ps # tl ps). \<exists>ts. field p ''timestamp'' = Some (JStr ts)"
    using cr created_timestamp \<open>hd ps # tl ps = ps\<close> by metis
  ultimately obtain ws3 where
    cl: "check_links env 1 (hd ps) (tl ps) = Inr ([], ws3)"
    using check_links_ok [OF lo] by blast
  have hn: "hd ps \<noteq> JNull" using nn False by (metis hd_in_set)
  then have g: "get (hd ps) ''previousHash'' = Inr (Some JNull)"
    using fp by (cases "hd ps") auto
  have ag: "agentIds ps = Inr (replicate (length ps) (Some (JStr (agent_id env (publicKey kp)))))"
    by (rule agentIds_same) (use cr created_not_null created_agentId in blast)
  have "\<not> 1 < set_size (replicate (length ps) (Some (JStr (agent_id env (publicKey kp)))))"
    using set_size_replicate [of "length ps" "agent_id env (publicKey kp)"] by simp
  then show ?thesis
    using False ve cl g ag by (simp add: verifyChain_def Let_def)
qed




text \<open>The example keypair and the chain of three proofs.\<close>

lemma demo_keypair_ok: "keypair_ok demo_env demo_keypair"
  by (simp add: keypair_ok_def demo_env_def demo_keypair_def demo_sign_def demo_verify_def)

lemma three_chain_proofs:
  "proofs (fst (add_all demo_env three_calls
                  (ProofChain_new demo_env 1767225600000 demo_keypair None, Map.empty))) =
    [JObj [(''version'', JStr ''1.0''), (''action'', JStr ''decision''),
           (''data'', JObj [(''x'', JNum 1)]), (''agentId'', JStr ''agent-6082b0a4253fd5fb''),
           (''previousHash'', JNull), (''timestamp'', JStr ''2026-01-01T00:00:01.000Z''),
           (''metadata'', JObj []), (''hash'', JStr ''0102b5e0c4a2e687''),
           (''signature'', JStr ''MCowBQYDK2VwAyEA.0102b5e0c4a2e687'')],
     JObj [(''version'', JStr ''1.0''), (''action'', JStr ''tool_call''),
           (''data'', JObj [(''y'', JObj [(''z'', JArr [JNum 1, JBool True])])]),
           (''agentId'', JStr ''agent-6082b0a4253fd5fb''),
           (''previousHash'', JStr ''0102b5e0c4a2e687''),
           (''timestamp'', JStr ''2026-01-01T00:00:02.000Z''),
           (''metadata'', JObj []), (''hash'', JStr ''01f236c1b098ac82''),
           (''signature'', JStr ''MCowBQYDK2VwAyEA.01f236c1b098ac82'')],
     JObj [(''version'', JStr ''1.0''), (''action'', JStr ''decision''),
           (''data'', JObj []), (''agentId'', JStr ''agent-6082b0a4253fd5fb''),
           (''previousHash'', JStr ''01f236c1b098ac82''),
           (''timestamp'', JStr ''2026-01-01T00:00:03.000Z''),
           (''metadata'', JObj [(''k'', JNull)]), (''hash'', JStr ''ebb19d6b6493b210''),
           (''signature'', JStr ''MCowBQYDK2VwAyEA.ebb19d6b6493b210'')]]"
  by code_simp


section \<open>A broken link\<close>


text \<open>A built proof after \<^verbatim>\<open>previousHash\<close> was replaced: its other fields are as they were,
  and \<^verbatim>\<open>verifyProof\<close> returns a result for it.\<close>

lemma tampered_fields:
  assumes "created_by env kp prev p"
  shows "set_field p ''previousHash'' v \<noteq> JNull
       \<and> field (set_field p ''previousHash'' v) ''previousHash'' = Some v
       \<and> field (set_field p ''previousHash'' v) ''hash'' = field p ''hash''
       \<and> field (set_field p ''previousHash'' v) ''agentId'' = field p ''agentId''
       \<and> field (set_field p ''previousHash'' v) ''timestamp'' = field p ''timestamp''
       \<and> (\<exists>r. verifyProof env n (set_field p ''previousHash'' v) (Some (JStr (publicKey kp))) = Inr r
              \<and> set (errors r) \<subseteq> {''Hash verification failed - proof data may be tampered'',
                                ''Signature verification failed - proof is not authentic''})"
proof -
  from assms obtain ve a d ts m h s k pd where
    p: "p = JObj [(''version'', ve), (''action'', a), (''data'', d),
                (''agentId'', JStr (agent_id env (publicKey kp))),
                (''previousHash'', (case prev of None \<Rightarrow> JNull | Some x \<Rightarrow> x)),
                (''timestamp'', JStr ts), (''metadata'', m),
                (''hash'', JStr h), (''signature'', JStr s)]"
    by (rule created_fields)
  have q: "set_field p ''previousHash'' v =
      JObj [(''version'', ve), (''action'', a), (''data'', d),
            (''agentId'', JStr (agent_id env (publicKey kp))),
            (''previousHash'', v),
            (''timestamp'', JStr ts), (''metadata'', m),
            (''hash'', JStr h), (''signature'', JStr s)]"
    unfolding p by (simp add: obj_assign_def)
  have r: "\<exists>r. verifyProof env n (set_field p ''previousHash'' v) (Some (JStr (publicKey kp))) = Inr r
              \<and> set (errors r) \<subseteq> {''Hash verification failed - proof data may be tampered'',
                                ''Signature verification failed - proof is not authentic''}"
    unfolding q
    by (auto simp: verifyProof_def required_fields_def verifyAgentId_def deriveAgentId_def
          verifyHash_def time_of_def Let_def)
  have 1: "set_field p ''previousHash'' v \<noteq> JNull"
    and 2: "field (set_field p ''previousHash'' v) ''previousHash'' = Some v"
    and 3: "field (set_field p ''previousHash'' v) ''hash'' = Some (JStr h)"
    and 4: "field (set_field p ''previousHash'' v) ''agentId'' = Some (JStr (agent_id env (publicKey kp)))"
    and 5: "field (set_field p ''previousHash'' v) ''timestamp'' = Some (JStr ts)"
    unfolding q by simp_all
  have 6: "field p ''hash'' = Some (JStr h)"
    and 7: "field p ''agentId'' = Some (JStr (agent_id env (publicKey kp)))"
    and 8: "field p ''timestamp'' = Some (JStr ts)"
    unfolding p by simp_all
  from r 1 2 3 4 5 6 7 8 show ?thesis by simp
qed

lemma tampered_chain:
  assumes b: "built env kp ps" and ok: "keypair_ok env kp"
    and k: "0 < k" "k < length ps"
    and v: "Some v \<noteq> field (ps ! (k - 1)) ''hash''"
  shows "\<exists>rk r.
      verifyProof env (now k) (set_field (ps ! k) ''previousHash'' v) (Some (JStr (publicKey kp)))
        = Inr rk
    \<and> set (errors rk) \<subseteq> {''Hash verification failed - proof data may be tampered'',
                                ''Signature verification failed - proof is not authentic''}
    \<and> verifyChain env now (ps[k := set_field (ps ! k) ''previousHash'' v])
        (Some (JStr (publicKey kp))) = Inr r
    \<and> \<not> valid r
    \<and> errors r = (if valid rk then []
                   else [''Proof '' @ show_nat k @ '': '' @ join '', '' (errors rk)])
                  @ [chain_break k]"
proof -
  let ?pk = "Some (JStr (publicKey kp))"
  let ?p = "ps ! k"
  let ?p' = "set_field ?p ''previousHash'' v"
  let ?xs = "take k ps"
  let ?ys = "drop (Suc k) ps"
  have ps: "ps = ?xs @ ?p # ?ys" using k(2) by (rule id_take_nth_drop)
  have ps': "ps[k := ?p'] = ?xs @ ?p' # ?ys" using k(2) by (rule upd_conv_take_nth_drop)
  have lx: "length ?xs = k" using k(2) by simp
  have xne: "?xs \<noteq> []" using k by auto
  have lastx: "last ?xs = ps ! (k - 1)"
    using last_conv_nth [OF xne] k by simp
  have hdx: "hd ?xs = hd ps" using k by (cases ps) auto
  from built_facts [OF b] k
  have cr: "\<And>p. p \<in> set ps \<Longrightarrow> \<exists>prev. created_by env kp prev p"
    and fp: "field (hd ps) ''previousHash'' = Some JNull"
    and lo: "links_ok (hd ps) (tl ps)"
    by auto
  have crx: "\<And>p. p \<in> set ?xs \<Longrightarrow> \<exists>prev. created_by env kp prev p"
    using cr by (meson in_set_takeD)
  have cry: "\<And>p. p \<in> set ?ys \<Longrightarrow> \<exists>prev. created_by env kp prev p"
    using cr by (meson in_set_dropD)
  from cr [of ?p] k(2) obtain prev where crp: "created_by env kp prev ?p" by auto
  from tampered_fields [OF crp, of v "now k"] obtain rk where
    nn': "?p' \<noteq> JNull" and f1: "field ?p' ''previousHash'' = Some v"
    and f2: "field ?p' ''hash'' = field ?p ''hash''"
    and f3: "field ?p' ''agentId'' = field ?p ''agentId''"
    and f4: "field ?p' ''timestamp'' = field ?p ''timestamp''"
    and rk: "verifyProof env (now k) ?p' ?pk = Inr rk"
    and ek: "set (errors rk) \<subseteq> {''Hash verification failed - proof data may be tampered'',
                                ''Signature verification failed - proof is not authentic''}"
    by blast
  \<comment> \<open>the first loop\<close>
  obtain w1 where v1: "verify_each env now ?pk 0 ?xs = Inr ([], w1)"
    using verify_each_valid [of ?xs env ?pk now 0] crx created_verifies ok by blast
  obtain w2 where v2: "verify_each env now ?pk (Suc k) ?ys = Inr ([], w2)"
    using verify_each_valid [of ?ys env ?pk now "Suc k"] cry created_verifies ok by blast
  let ?ek = "if valid rk then [] else [''Proof '' @ show_nat k @ '': '' @ join '', '' (errors rk)]"
  have ve: "\<exists>ws. verify_each env now ?pk 0 (ps[k := ?p']) = Inr (?ek, ws)"
    unfolding ps' verify_each_append lx using k(2) by (simp add: v1 rk v2)
  \<comment> \<open>the second loop\<close>
  have tl': "tl (ps[k := ?p']) = tl ?xs @ ?p' # ?ys" and hd': "hd (ps[k := ?p']) = hd ?xs"
    unfolding ps' using xne by simp_all
  have tlps: "tl ps = tl ?xs @ ?p # ?ys"
    using ps xne by (metis tl_append2)
  from lo have lo1: "links_ok (hd ?xs) (tl ?xs)" and lo2: "links_ok (last (hd ?xs # tl ?xs)) (?p # ?ys)"
    unfolding hdx by (subst (asm) tlps, simp add: links_ok_append hdx)+
  have lastx': "last (hd ?xs # tl ?xs) = ps ! (k - 1)"
    unfolding hd_Cons_tl [OF xne] by (rule lastx)
  have nnps: "JNull \<notin> set ps"
    using cr created_not_null by blast
  have nnx: "JNull \<notin> set (hd ?xs # tl ?xs)"
    unfolding hd_Cons_tl [OF xne] using nnps by (blast dest: in_set_takeD)
  have nny: "JNull \<notin> set (?p' # ?ys)"
    using nn' nnps by (auto dest: in_set_dropD)
  have tsps: "\<And>p. p \<in> set ps \<Longrightarrow> \<exists>ts. field p ''timestamp'' = Some (JStr ts)"
    using cr created_timestamp by blast
  have tsx: "\<forall>p \<in> set (hd ?xs # tl ?xs). \<exists>ts. field p ''timestamp'' = Some (JStr ts)"
    unfolding hd_Cons_tl [OF xne] using tsps by (blast dest: in_set_takeD)
  from tsps [of ?p] k(2) f4 obtain tk where tk: "field ?p' ''timestamp'' = Some (JStr tk)"
    by auto
  have tsy: "\<forall>p \<in> set (?p' # ?ys). \<exists>ts. field p ''timestamp'' = Some (JStr ts)"
    using tk tsps by (auto dest: in_set_dropD)
  obtain w3 where c1: "check_links env 1 (hd ?xs) (tl ?xs) = Inr ([], w3)"
    using check_links_ok [OF lo1 nnx tsx] by blast
  have lo3: "links_ok ?p' ?ys"
    using lo2 links_ok_hash [OF f2] by simp
  obtain w4 where c2: "check_links env (Suc k) ?p' ?ys = Inr ([], w4)"
    using check_links_ok [OF lo3 nny tsy] by blast
  have prevnn: "ps ! (k - 1) \<noteq> JNull"
    using nnps k by (metis less_imp_diff_less nth_mem)
  from tsps [of "ps ! (k - 1)"] k obtain tj where
    tj: "field (ps ! (k - 1)) ''timestamp'' = Some (JStr tj)"
    by (metis less_imp_diff_less nth_mem)
  have g1: "get ?p' ''previousHash'' = Inr (Some v)"
    using nn' f1 by (cases ?p') auto
  have g2: "get (ps ! (k - 1)) ''hash'' = Inr (field (ps ! (k - 1)) ''hash'')"
    using prevnn by (cases "ps ! (k - 1)") auto
  have brk: "\<not> strict_eq (Some v) (field (ps ! (k - 1)) ''hash'')"
    using v by (cases "field (ps ! (k - 1)) ''hash''") auto
  have ltl: "1 + length (tl ?xs) = k" using xne lx by (cases ?xs) auto
  obtain w5 where step: "check_links env k (ps ! (k - 1)) (?p' # ?ys) = Inr ([chain_break k], w5)"
    using g1 g2 brk c2 time_of_string [OF tk, of env] time_of_string [OF tj, of env] by simp
  have cl: "\<exists>ws. check_links env 1 (hd (ps[k := ?p'])) (tl (ps[k := ?p'])) = Inr ([chain_break k], ws)"
    unfolding tl' hd' check_links_append ltl lastx' c1 step by simp
  \<comment> \<open>the agents\<close>
  have ag: "agentIds (ps[k := ?p']) =
              Inr (replicate (length (ps[k := ?p'])) (Some (JStr (agent_id env (publicKey kp)))))"
  proof (rule agentIds_same)
    fix p assume "p \<in> set (ps[k := ?p'])"
    then have "p = ?p' \<or> p \<in> set ps"
      using set_update_subset_insert [of ps k ?p'] by auto
    then show "p \<noteq> JNull \<and> field p ''agentId'' = Some (JStr (agent_id env (publicKey kp)))"
    proof
      assume "p = ?p'"
      with nn' f3 created_agentId [OF crp] show ?thesis by simp
    next
      assume "p \<in> set ps"
      with cr obtain q where "created_by env kp q p" by blast
      then show ?thesis using created_not_null created_agentId by blast
    qed
  qed
  have sz: "\<not> 1 < set_size (replicate (length (ps[k := ?p'])) (Some (JStr (agent_id env (publicKey kp)))))"
    using set_size_replicate [of "length (ps[k := ?p'])" "agent_id env (publicKey kp)"] by simp
  have ne: "ps[k := ?p'] \<noteq> []" using k by auto
  have hnn: "hd (ps[k := ?p']) \<noteq> JNull"
    unfolding hd' using nnx by auto
  then have g0: "\<exists>x. get (hd (ps[k := ?p'])) ''previousHash'' = Inr x"
    by (cases "hd (ps[k := ?p'])") auto
  from ve cl g0 obtain wa wb x where
    "verify_each env now ?pk 0 (ps[k := ?p']) = Inr (?ek, wa)"
    "check_links env 1 (hd (ps[k := ?p'])) (tl (ps[k := ?p'])) = Inr ([chain_break k], wb)"
    "get (hd (ps[k := ?p'])) ''previousHash'' = Inr x"
    by blast
  then have "\<exists>r. verifyChain env now (ps[k := ?p']) ?pk = Inr r \<and> \<not> valid r
                \<and> errors r = ?ek @ [chain_break k]"
    using ne ag sz by (simp add: verifyChain_def Let_def)
  with rk ek show ?thesis by blast
qed


text \<open>
  Claim C5. In a chain built by calls of \<^verbatim>\<open>add\<close> on a new chain, let the
  \<^verbatim>\<open>previousHash\<close> of proof \<open>k > 0\<close> be replaced by a value other than the \<^verbatim>\<open>hash\<close> of
  proof \<open>k - 1\<close>. Then \<^verbatim>\<open>verifyChain\<close> returns \<^verbatim>\<open>valid: false\<close>, and its errors are the
  entry \<^verbatim>\<open>Proof k: ...\<close> of the first loop, when \<^verbatim>\<open>verifyProof\<close> finds proof \<open>k\<close> invalid
  (which can only be for its hash or its signature), followed by
  \<^verbatim>\<open>Chain break at proof k: ...\<close>, and nothing else: no error names another proof, none
  names proof \<open>k + 1\<close>.
\<close>

theorem chain_break_localized:
  assumes "keypair_ok env kp"
    and "c = fst (add_all env calls (ProofChain_new env created kp sp, fs))"
    and "0 < k" and "k < length (proofs c)"
    and "Some v \<noteq> field (proofs c ! (k - 1)) ''hash''"
  shows "\<exists>rk r.
      verifyProof env (now k) (set_field (proofs c ! k) ''previousHash'' v)
        (Some (JStr (publicKey kp))) = Inr rk
    \<and> set (errors rk) \<subseteq> {''Hash verification failed - proof data may be tampered'',
                                ''Signature verification failed - proof is not authentic''}
    \<and> verifyChain env now ((proofs c)[k := set_field (proofs c ! k) ''previousHash'' v])
        (Some (JStr (publicKey kp))) = Inr r
    \<and> \<not> valid r
    \<and> errors r = (if valid rk then []
                   else [''Proof '' @ show_nat k @ '': '' @ join '', '' (errors rk)])
                  @ [chain_break k]"
proof -
  have "built env kp (proofs c)"
    unfolding assms(2) by (rule new_chain_built)
  from tampered_chain [OF this assms(1,3,4,5)] show ?thesis .
qed

theorem chain_break_localized_witness:
  \<open>keypair_ok demo_env demo_keypair
   \<and> (1::nat) < length (proofs (fst (add_all demo_env three_calls
                  (ProofChain_new demo_env 1767225600000 demo_keypair None, Map.empty))))
   \<and> Some (JStr ''tampered'') \<noteq>
        field (proofs (fst (add_all demo_env three_calls
                  (ProofChain_new demo_env 1767225600000 demo_keypair None, Map.empty))) ! 0) ''hash''
   \<and> chain_break 1 = ''Chain break at proof 1: previousHash doesn't match previous proof's hash''
   \<and> (\<exists>rk r.
        verifyProof demo_env 1767225700000
          (set_field (proofs (fst (add_all demo_env three_calls
                  (ProofChain_new demo_env 1767225600000 demo_keypair None, Map.empty))) ! 1)
             ''previousHash'' (JStr ''tampered''))
          (Some (JStr (publicKey demo_keypair))) = Inr rk
      \<and> set (errors rk) \<subseteq> {''Hash verification failed - proof data may be tampered'',
                                  ''Signature verification failed - proof is not authentic''}
      \<and> verifyChain demo_env (\<lambda>i. 1767225700000)
          ((proofs (fst (add_all demo_env three_calls
                  (ProofChain_new demo_env 1767225600000 demo_keypair None, Map.empty))))
             [1 := set_field (proofs (fst (add_all demo_env three_calls
                  (ProofChain_new demo_env 1767225600000 demo_keypair None, Map.empty))) ! 1)
                     ''previousHash'' (JStr ''tampered'')])
          (Some (JStr (publicKey demo_keypair))) = Inr r
      \<and> \<not> valid r
      \<and> errors r = (if valid rk then []
                     else [''Proof '' @ show_nat 1 @ '': '' @ join '', '' (errors rk)])
                    @ [chain_break 1])\<close>
proof -
  let ?c = "fst (add_all demo_env three_calls
                  (ProofChain_new demo_env 1767225600000 demo_keypair None, Map.empty))"
  have l: "(1::nat) < length (proofs ?c)"
    unfolding three_chain_proofs by simp
  have h: "Some (JStr ''tampered'') \<noteq> field (proofs ?c ! (1 - 1)) ''hash''"
    unfolding three_chain_proofs by simp
  have cb: \<open>chain_break 1 = ''Chain break at proof 1: previousHash doesn't match previous proof's hash''\<close>
    by code_simp
  from chain_break_localized [OF demo_keypair_ok refl _ l h, of "\<lambda>i. 1767225700000"]
    demo_keypair_ok l h cb
  show ?thesis by simp
qed

section \<open>The temporal check\<close>


text \<open>A conversion that returns, returns what the runtime reads; whether it returns does
  not depend on the runtime.\<close>

lemma time_of_if:
  "time_of env v =
    (if (\<exists>x. v = Some x \<and> no_primitive x) then Inl TypeError else Inr (read_time env v))"
  by (auto simp: time_of_def read_time_def split: option.splits)

text \<open>The warnings of the second loop, by position.\<close>

lemma check_links_warnings:
  "check_links env i prev ps = Inr (es, ws) \<Longrightarrow>
   ws = concat (map (\<lambda>j. if js_less (read_time env (field ((prev # ps) ! Suc j) ''timestamp''))
                              (map_option (\<lambda>t. t - 1000)
                                 (read_time env (field ((prev # ps) ! j) ''timestamp'')))
                         then [earlier_timestamp (i + j)] else [])
                   [0..<length ps])"
proof (induction ps arbitrary: i prev es ws)
  case Nil
  then show ?case by simp
next
  case (Cons c rest)
  from Cons.prems obtain es' ws' pt ct where
    rec: "check_links env (Suc i) c rest = Inr (es', ws')"
    and pt: "time_of env (field prev ''timestamp'') = Inr pt"
    and ct: "time_of env (field c ''timestamp'') = Inr ct"
    and ws: "ws = (if js_less ct (map_option (\<lambda>t. t - 1000) pt)
                   then [earlier_timestamp i] else []) @ ws'"
    by (auto split: sum.splits prod.splits)
  have up: "[0..<length (c # rest)] = 0 # map Suc [0..<length rest]"
    by (simp add: upt_conv_Cons map_Suc_upt del: upt_Suc)
  show ?case
    unfolding ws Cons.IH [OF rec] up time_of_Inr [OF pt] time_of_Inr [OF ct]
    by (simp add: comp_def cong: if_cong)
qed

lemma temporal_warnings_Cons:
  "temporal_warnings env (p # ps) =
    concat (map (\<lambda>j. if js_less (read_time env (field ((p # ps) ! Suc j) ''timestamp''))
                              (map_option (\<lambda>t. t - 1000)
                                 (read_time env (field ((p # ps) ! j) ''timestamp'')))
                         then [earlier_timestamp (1 + j)] else [])
                   [0..<length ps])"
proof -
  have "[1..<length (p # ps)] = map Suc [0..<length ps]"
    by (simp add: map_Suc_upt del: upt_Suc)
  then show ?thesis
    by (simp add: temporal_warnings_def comp_def del: upt_Suc cong: if_cong)
qed

text \<open>The warnings of \<^verbatim>\<open>verifyProof\<close>, and those of the first loop by position.\<close>

lemma verifyProof_warnings:
  assumes "verifyProof env n p pk = Inr r"
  shows "warnings r =
    (if list_all (\<lambda>f. field p f \<noteq> None) required_fields
        \<and> js_less (Some (n + 60000)) (read_time env (field p ''timestamp''))
     then [''Proof timestamp is in the future''] else [])"
proof -
  from assms have nn: "\<And>x y. (case p of JNull \<Rightarrow> x | _ \<Rightarrow> y) = y"
    by (cases p) (simp_all add: verifyProof_def)
  have m: "(filter (\<lambda>f. field p f = None) required_fields = [])
             = list_all (\<lambda>f. field p f \<noteq> None) required_fields"
    by (simp add: filter_empty_conv list_all_iff)
  show ?thesis
  proof (cases "list_all (\<lambda>f. field p f \<noteq> None) required_fields")
    case False
    with assms m show ?thesis
      unfolding verifyProof_def nn by (auto simp: Let_def)
  next
    case True
    with assms m obtain t where t: "time_of env (field p ''timestamp'') = Inr t"
      and w: "warnings r = (if js_less (Some (n + 60000)) t
                            then [''Proof timestamp is in the future''] else [])"
      unfolding verifyProof_def nn by (auto simp: Let_def split: sum.splits)
    from w True show ?thesis
      unfolding time_of_Inr [OF t] by simp
  qed
qed

lemma verify_each_warnings:
  "verify_each env now pk i ps = Inr (es, ws) \<Longrightarrow>
   ws = concat (map (\<lambda>j. if list_all (\<lambda>f. field (ps ! j) f \<noteq> None) required_fields
                            \<and> js_less (Some (now (i + j) + 60000))
                                  (read_time env (field (ps ! j) ''timestamp''))
                         then [''Proof '' @ show_nat (i + j)
                                 @ '': Proof timestamp is in the future'']
                         else [])
                   [0..<length ps])"
proof (induction ps arbitrary: i es ws)
  case Nil
  then show ?case by simp
next
  case (Cons p rest)
  from Cons.prems obtain r es' ws' where
    r: "verifyProof env (now i) p pk = Inr r"
    and rec: "verify_each env now pk (Suc i) rest = Inr (es', ws')"
    and ws: "ws = (if warnings r \<noteq> []
                   then [''Proof '' @ show_nat i @ '': '' @ join '', '' (warnings r)]
                   else []) @ ws'"
    by (auto split: sum.splits prod.splits)
  have up: "[0..<length (p # rest)] = 0 # map Suc [0..<length rest]"
    by (simp add: upt_conv_Cons map_Suc_upt del: upt_Suc)
  show ?case
    unfolding ws Cons.IH [OF rec] up verifyProof_warnings [OF r]
    by (simp add: comp_def cong: if_cong)
qed

lemma future_warnings_eq:
  assumes "verify_each env now pk 0 ps = Inr (es, ws)"
  shows "ws = future_warnings env now ps"
  using verify_each_warnings [OF assms] by (simp add: future_warnings_def cong: if_cong)

text \<open>The verdict of a proof does not depend on the clock.\<close>

lemma deriveAgentId_clock:
  "deriveAgentId (env\<lparr>date_getTime := f\<rparr>) pk = deriveAgentId env pk"
  by (simp add: deriveAgentId_def agent_id_def split: option.splits json.splits)

lemma hashProofData_clock:
  "hashProofData (env\<lparr>date_getTime := f\<rparr>) pd = hashProofData env pd"
  by (simp add: hashProofData_def)

lemma ed25519_verify_clock:
  "ed25519_verify (env\<lparr>date_getTime := f\<rparr>) = ed25519_verify env"
  by simp

lemma verifyAgentId_clock:
  "verifyAgentId (env\<lparr>date_getTime := f\<rparr>) p pk = verifyAgentId env p pk"
  unfolding verifyAgentId_def deriveAgentId_clock ..

lemma verifyHash_clock:
  "verifyHash (env\<lparr>date_getTime := f\<rparr>) p = verifyHash env p"
  unfolding verifyHash_def hashProofData_clock ..

lemma verifySignature_clock:
  "verifySignature (env\<lparr>date_getTime := f\<rparr>) p pk = verifySignature env p pk"
  unfolding verifySignature_def ed25519_verify_clock ..

lemma verifyProof_clock:
  "verdict (verifyProof (env\<lparr>date_getTime := f\<rparr>) n' p pk) = verdict (verifyProof env n p pk)"
proof (cases "p = JNull")
  case True
  then show ?thesis by (simp add: verifyProof_def)
next
  case False
  then have nn: "\<And>x y. (case p of JNull \<Rightarrow> x | _ \<Rightarrow> y) = y"
    by (cases p) simp_all
  show ?thesis
    unfolding verifyProof_def nn verifyAgentId_clock verifyHash_clock verifySignature_clock
      time_of_if
    by (auto simp: verdict_def Let_def split: sum.splits)
qed


lemma verdict_cases:
  assumes "verdict x = verdict y"
  shows "(\<exists>e. x = Inl e \<and> y = Inl e)
       \<or> (\<exists>r r'. x = Inr r \<and> y = Inr r' \<and> valid r = valid r' \<and> errors r = errors r')"
  using assms by (cases x; cases y) (auto simp: verdict_def)

lemma verify_each_clock:
  "map_sum id fst (verify_each (env\<lparr>date_getTime := f\<rparr>) now' pk i ps)
   = map_sum id fst (verify_each env now pk i ps)"
proof (induction ps arbitrary: i)
  case Nil
  then show ?case by simp
next
  case (Cons p ps)
  from verdict_cases [OF verifyProof_clock [where env = env and f = f and n' = "now' i" and p = p and pk = pk and n = "now i"]]
  show ?case
  proof (elim disjE exE conjE)
    fix e
    assume "verifyProof (env\<lparr>date_getTime := f\<rparr>) (now' i) p pk = Inl e"
      "verifyProof env (now i) p pk = Inl e"
    then show ?thesis by simp
  next
    fix r r'
    assume a: "verifyProof (env\<lparr>date_getTime := f\<rparr>) (now' i) p pk = Inr r"
      "verifyProof env (now i) p pk = Inr r'" "valid r = valid r'" "errors r = errors r'"
    show ?thesis
      using Cons.IH [where i = "Suc i"] a
      by (cases "verify_each (env\<lparr>date_getTime := f\<rparr>) now' pk (Suc i) ps";
          cases "verify_each env now pk (Suc i) ps") (auto split: prod.splits)
  qed
qed

lemma check_links_clock:
  "map_sum id fst (check_links (env\<lparr>date_getTime := f\<rparr>) i prev ps)
   = map_sum id fst (check_links env i prev ps)"
proof (induction ps arbitrary: i prev)
  case Nil
  then show ?case by simp
next
  case (Cons c rest)
  show ?case
    using Cons.IH [where i = "Suc i" and prev = c]
    by (cases "check_links (env\<lparr>date_getTime := f\<rparr>) (Suc i) c rest";
        cases "check_links env (Suc i) c rest")
       (auto simp: time_of_if split: sum.splits prod.splits)
qed

lemma verifyChain_clock:
  "verdict (verifyChain (env\<lparr>date_getTime := f\<rparr>) now' ps pk) = verdict (verifyChain env now ps pk)"
proof (cases "ps = []")
  case True
  then show ?thesis by (simp add: verifyChain_def verdict_def)
next
  case False
  show ?thesis
    using verify_each_clock [where env = env and f = f and now' = now' and pk = pk and i = 0 and ps = ps and now = now]
      check_links_clock [where env = env and f = f and i = 1 and prev = "hd ps" and ps = "tl ps"] False
    by (cases "verify_each (env\<lparr>date_getTime := f\<rparr>) now' pk 0 ps";
        cases "verify_each env now pk 0 ps";
        cases "check_links (env\<lparr>date_getTime := f\<rparr>) 1 (hd ps) (tl ps)";
        cases "check_links env 1 (hd ps) (tl ps)")
       (auto simp: verifyChain_def verdict_def Let_def split: sum.splits prod.splits)
qed

text \<open>
  Claim C7, amended. On every chain for which \<^verbatim>\<open>verifyChain\<close> returns a result, the
  temporal check reports a proof whose time is more than 1000 milliseconds (one second)
  before the time of the proof before it, and no other: its reports are the last warnings
  of the result, one for each such proof. The tolerance of one minute is that of
  \<^verbatim>\<open>verifyProof\<close> for a timestamp in the future: a proof that has every required field
  and whose time is more than 60000 milliseconds after the clock reading of its check is
  reported, and no other; these reports are the first warnings of the result. The
  warnings of a chain are these two kinds and the one on the \<^verbatim>\<open>previousHash\<close> of the
  first proof. All of them are warnings only: the errors and the validity of the chain are
  the same whatever the timestamps are read as and whatever the clock says.
\<close>

theorem temporal_check_one_second:
  assumes "verifyChain env now ps pk = Inr r" and "ps \<noteq> []"
  shows "warnings r = future_warnings env now ps
                 @ (if \<not> strict_eq (field (hd ps) ''previousHash'') (Some JNull)
                    then [first_not_null] else [])
                 @ temporal_warnings env ps
       \<and> (\<forall>f now'. \<exists>r'. verifyChain (env\<lparr>date_getTime := f\<rparr>) now' ps pk = Inr r'
                        \<and> valid r' = valid r \<and> errors r' = errors r)"
proof
  from assms obtain es1 ws1 fp es2 ws3 where
    ve: "verify_each env now pk 0 ps = Inr (es1, ws1)"
    and fp: "get (hd ps) ''previousHash'' = Inr fp"
    and cl: "check_links env 1 (hd ps) (tl ps) = Inr (es2, ws3)"
    and w: "warnings r = ws1 @ (if \<not> strict_eq fp (Some JNull) then [first_not_null] else []) @ ws3"
    by (auto simp: verifyChain_def Let_def split: sum.splits prod.splits if_splits)
  from fp have fp': "fp = field (hd ps) ''previousHash''"
    by (cases "hd ps") auto
  obtain p rest where ps: "ps = p # rest" using assms(2) by (cases ps) auto
  have "ws3 = temporal_warnings env ps"
    using check_links_warnings [OF cl] unfolding ps temporal_warnings_Cons by simp
  with future_warnings_eq [OF ve] w fp'
  show "warnings r = future_warnings env now ps
                 @ (if \<not> strict_eq (field (hd ps) ''previousHash'') (Some JNull)
                    then [first_not_null] else [])
                 @ temporal_warnings env ps"
    by simp
next
  show "\<forall>f now'. \<exists>r'. verifyChain (env\<lparr>date_getTime := f\<rparr>) now' ps pk = Inr r'
                        \<and> valid r' = valid r \<and> errors r' = errors r"
  proof (intro allI)
    fix f now'
    from verdict_cases [OF verifyChain_clock [where env = env and f = f and now' = now' and ps = ps and pk = pk and now = now]] assms(1)
    show "\<exists>r'. verifyChain (env\<lparr>date_getTime := f\<rparr>) now' ps pk = Inr r'
                        \<and> valid r' = valid r \<and> errors r' = errors r"
      by auto
  qed
qed

text \<open>The chain whose second proof is stamped thirty seconds before its first.\<close>

lemma skewed_chain_proofs:
  "proofs skewed_chain =
    [JObj [(''version'', JStr ''1.0''), (''action'', JStr ''decision''),
           (''data'', JObj [(''step'', JNum 1)]), (''agentId'', JStr ''agent-6082b0a4253fd5fb''),
           (''previousHash'', JNull), (''timestamp'', JStr ''2026-01-01T00:00:30.000Z''),
           (''metadata'', JObj []), (''hash'', JStr ''242025204ba88161''),
           (''signature'', JStr ''MCowBQYDK2VwAyEA.242025204ba88161'')],
     JObj [(''version'', JStr ''1.0''), (''action'', JStr ''tool_call''),
           (''data'', JObj [(''step'', JNum 2)]), (''agentId'', JStr ''agent-6082b0a4253fd5fb''),
           (''previousHash'', JStr ''242025204ba88161''),
           (''timestamp'', JStr ''2026-01-01T00:00:00.000Z''),
           (''metadata'', JObj []), (''hash'', JStr ''eff7cbf67a4f9e99''),
           (''signature'', JStr ''MCowBQYDK2VwAyEA.eff7cbf67a4f9e99'')]]"
  by code_simp

lemma skewed_chain_built: "built demo_env demo_keypair (proofs skewed_chain)"
  unfolding skewed_chain_def by (rule new_chain_built)

lemma skewed_chain_temporal:
  "temporal_warnings demo_env (proofs skewed_chain)
     = [''Proof 1 has earlier timestamp than proof 0'']"
  unfolding skewed_chain_proofs by code_simp

lemma skewed_chain_future:
  "future_warnings demo_env (\<lambda>i. 1767225700000) (proofs skewed_chain) = []"
  "future_warnings demo_env (\<lambda>i. 1767225570000) (proofs skewed_chain) = []"
  "future_warnings demo_env (\<lambda>i. 1767225569999) (proofs skewed_chain)
     = [''Proof 0: Proof timestamp is in the future'']"
  unfolding skewed_chain_proofs by code_simp+

theorem temporal_check_one_second_witness:
  "proofs skewed_chain \<noteq> []
   \<and> (\<exists>r. verifyChain demo_env (\<lambda>i. 1767225700000) (proofs skewed_chain)
             (Some (JStr (publicKey demo_keypair))) = Inr r
          \<and> valid r \<and> errors r = []
          \<and> warnings r = [''Proof 1 has earlier timestamp than proof 0'']
          \<and> (\<forall>f now'. \<exists>r'. verifyChain (demo_env\<lparr>date_getTime := f\<rparr>) now'
                                 (proofs skewed_chain) (Some (JStr (publicKey demo_keypair)))
                               = Inr r'
                             \<and> valid r' = valid r \<and> errors r' = errors r))
   \<and> (\<exists>r. verifyChain demo_env (\<lambda>i. 1767225569999) (proofs skewed_chain)
             (Some (JStr (publicKey demo_keypair))) = Inr r
          \<and> valid r \<and> errors r = []
          \<and> warnings r = [''Proof 0: Proof timestamp is in the future'',
                          ''Proof 1 has earlier timestamp than proof 0''])
   \<and> (\<exists>r. verifyChain demo_env (\<lambda>i. 1767225570000) (proofs skewed_chain)
             (Some (JStr (publicKey demo_keypair))) = Inr r
          \<and> valid r \<and> errors r = []
          \<and> warnings r = [''Proof 1 has earlier timestamp than proof 0''])"
proof -
  have n: "proofs skewed_chain \<noteq> []"
    unfolding skewed_chain_proofs by simp
  have h: "field (hd (proofs skewed_chain)) ''previousHash'' = Some JNull"
    unfolding skewed_chain_proofs by simp
  have v: "\<And>now. \<exists>ws. verifyChain demo_env now (proofs skewed_chain)
                      (Some (JStr (publicKey demo_keypair)))
                    = Inr \<lparr>valid = True, errors = [], warnings = ws\<rparr>"
    using skewed_chain_built demo_keypair_ok by (rule built_verifies)
  from v [of "\<lambda>i. 1767225700000"] obtain w1 where
    r1: "verifyChain demo_env (\<lambda>i. 1767225700000) (proofs skewed_chain)
           (Some (JStr (publicKey demo_keypair)))
         = Inr \<lparr>valid = True, errors = [], warnings = w1\<rparr>" by blast
  from v [of "\<lambda>i. 1767225569999"] obtain w2 where
    r2: "verifyChain demo_env (\<lambda>i. 1767225569999) (proofs skewed_chain)
           (Some (JStr (publicKey demo_keypair)))
         = Inr \<lparr>valid = True, errors = [], warnings = w2\<rparr>" by blast
  from v [of "\<lambda>i. 1767225570000"] obtain w3 where
    r3: "verifyChain demo_env (\<lambda>i. 1767225570000) (proofs skewed_chain)
           (Some (JStr (publicKey demo_keypair)))
         = Inr \<lparr>valid = True, errors = [], warnings = w3\<rparr>" by blast
  from temporal_check_one_second [OF r1 n] temporal_check_one_second [OF r2 n]
    temporal_check_one_second [OF r3 n] n r1 r2 r3
  show ?thesis
    by (simp add: h skewed_chain_temporal skewed_chain_future)
qed

text \<open>Where a timestamp has no primitive value, as \<^verbatim>\<open>{"toString": 0}\<close> has none, the
  conversion throws and verification returns no result: in \<^verbatim>\<open>verifyProof\<close> for a proof
  that has every required field, in the temporal check for a proof that lacks one.\<close>

lemma timestamp_object_throws:
  "verifyProof env n
     (JObj [(''version'', v), (''action'', a), (''data'', d), (''agentId'', aid),
            (''previousHash'', ph), (''timestamp'', timestamp_object), (''metadata'', md),
            (''hash'', h), (''signature'', s)]) (Some (JStr k)) = Inl TypeError"
  "verifyChain env now [JObj [(''timestamp'', timestamp_object)], JObj []] pk = Inl TypeError"
  by (simp_all add: verifyProof_def verifyChain_def required_fields_def verifyAgentId_def
        deriveAgentId_def verifyHash_def time_of_def timestamp_object_def Let_def)

text \<open>
  Claim C7 says that a timestamp that goes back by less than about one minute is not
  reported. A chain built by two calls of \<^verbatim>\<open>add\<close>, the second stamped thirty seconds
  before the first, is valid and has the warning of the temporal check.
\<close>

theorem thirty_seconds_back_is_reported:
  "map (\<lambda>p. read_time demo_env (field p ''timestamp'')) (proofs skewed_chain)
     = [Some 1767225630000, Some 1767225600000]
   \<and> verifyChain demo_env (\<lambda>i. 1767225700000) (proofs skewed_chain)
        (Some (JStr (publicKey demo_keypair)))
     = Inr \<lparr>valid = True, errors = [],
            warnings = [''Proof 1 has earlier timestamp than proof 0'']\<rparr>"
  by code_simp

section \<open>Inputs on which verification throws\<close>

text \<open>
  Claim C4 says that \<^verbatim>\<open>verifyProof\<close>, \<^verbatim>\<open>verifyChain\<close> and \<^verbatim>\<open>verifyExportedChain\<close> never
  throw. Only \<^verbatim>\<open>verifySignature\<close> has a handler. A proof that is \<^verbatim>\<open>null\<close>, alone or as an
  entry of a chain, an exported chain without \<^verbatim>\<open>proofs\<close>, an exported chain that is
  \<^verbatim>\<open>null\<close>, and a public key that is not a string (here the number 42, with a proof
  that has every required field) make them throw a \<^verbatim>\<open>TypeError\<close>.
\<close>

theorem verification_throws:
  "verifyProof env t JNull pk = Inl TypeError
   \<and> verifyChain env now [JNull] pk = Inl TypeError
   \<and> verifyExportedChain env now
        (JObj [(''metadata'', JObj [(''publicKey'', JStr ''MCowBQYDK2VwAyEA'')]),
               (''proofs'', JArr [JNull])]) = Inl TypeError
   \<and> verifyExportedChain env now
        (JObj [(''metadata'', JObj [(''publicKey'', JStr ''MCowBQYDK2VwAyEA'')])]) = Inl TypeError
   \<and> verifyExportedChain env now JNull = Inl TypeError
   \<and> verifyProof env t
        (JObj [(''version'', JStr ''1.0''), (''action'', JStr ''decision''), (''data'', JObj []),
               (''agentId'', JStr ''agent-6082b0a4253fd5fb''), (''previousHash'', JNull),
               (''timestamp'', JStr ''2026-01-01T00:00:01.000Z''), (''metadata'', JObj []),
               (''hash'', JStr ''00''), (''signature'', JStr ''00'')])
        (Some (JNum 42)) = Inl TypeError"
  by (simp add: verifyProof_def verifyChain_def verifyExportedChain_def verifyChain_value_def
        required_fields_def verifyAgentId_def deriveAgentId_def)

section \<open>Signing without a private key\<close>




section \<open>The identity file\<close>

text \<open>
  Claim C9 says that saving a keypair where an identity file exists reports an error and
  leaves the file unchanged. \<^verbatim>\<open>saveKeypair\<close> has no such check: on a file system that
  holds the identity file of one keypair, saving another keypair to the same path returns
  without an error and the file holds the other keypair.
\<close>

theorem saveKeypair_overwrites:
  "existsSync home_fs key_path
   \<and> home_fs key_path = Some (File 384 (Json_text (keypair_json demo_keypair)))
   \<and> snd (saveKeypair other_keypair key_path home_fs) = None
   \<and> fst (saveKeypair other_keypair key_path home_fs) key_path
       = Some (File 384 (Json_text (keypair_json other_keypair)))
   \<and> keypair_json other_keypair \<noteq> keypair_json demo_keypair"
  by (simp add: saveKeypair_def home_fs_def key_path_def existsSync_def ancestors_def
        writeFileSync_def keypair_json_def other_keypair_def demo_keypair_def Let_def)

text \<open>
  Claim C9, amended. The \<^verbatim>\<open>init\<close> command never overwrites: when something exists at the
  key path, \<^verbatim>\<open>cmdInit\<close> writes the two lines of its error message to the error stream and
  exits with status 1; the file system and the standard output are unchanged, and
  \<^verbatim>\<open>saveKeypair\<close> is not reached.
\<close>

theorem cmdInit_keeps_existing:
  assumes "existsSync (files w) key"
  shows "cmdInit env generated key w =
           (w\<lparr>stderr := stderr w @ [''Error: Keypair already exists at '' @ path_text key,
                                    ''Delete it first if you want to generate a new one.'']\<rparr>,
            Exited 1)
         \<and> files (fst (cmdInit env generated key w)) = files w
         \<and> stdout (fst (cmdInit env generated key w)) = stdout w"
  using assms by (simp add: cmdInit_def)

theorem cmdInit_keeps_existing_witness:
  "existsSync (files \<lparr>files = home_fs, stdout = [], stderr = []\<rparr>) key_path
   \<and> cmdInit demo_env other_keypair key_path \<lparr>files = home_fs, stdout = [], stderr = []\<rparr> =
       (\<lparr>files = home_fs, stdout = [],
         stderr = [''Error: Keypair already exists at home/agent/.agentproof/keypair.json'',
                   ''Delete it first if you want to generate a new one.'']\<rparr>, Exited 1)"
proof -
  have e: "existsSync (files \<lparr>files = home_fs, stdout = [], stderr = []\<rparr>) key_path"
    by (simp add: existsSync_def home_fs_def)
  have t: "path_text key_path = ''home/agent/.agentproof/keypair.json''"
    by (simp add: path_text_def key_path_def)
  from cmdInit_keeps_existing [OF e, of demo_env other_keypair] e t show ?thesis by simp
qed

end
